theory Spec2Isabelle
  imports Main "HOL-Library.AList"
begin

section \<open>JavaScript values, objects and the heap\<close>

text \<open>
  The wrapper of \<^verbatim>\<open>src/lib/ReduxLocalStorage.ts\<close> works on JavaScript objects: it
  copies them (\<^verbatim>\<open>{ ...s }\<close>), attaches and deletes a symbol-keyed property, and compares
  references (\<^verbatim>\<open>nextState !== s\<close>). Objects therefore live in an explicit heap and a
  value is a primitive or a reference into the heap. An object is the list of its own
  enumerable properties in insertion order; a key is a string or a symbol. Numbers are
  integers (floating point is not modelled). Objects are plain: prototypes, arrays and
  functions are not modelled, nor is the rule that puts integer-like keys first.
\<close>

type_synonym addr = nat

datatype symbol = defaultStateSourceMarker | OtherSymbol nat

datatype propkey = StrKey string | SymKey symbol

datatype jsval = JUndefined | JNull | JBool bool | JNum int | JStr string | JRef addr

type_synonym jsobj = "(propkey \<times> jsval) list"

type_synonym heap = "jsobj list"

datatype js_error = TypeError | SyntaxError | QuotaExceededError | Error string

text \<open>The object at an address. JavaScript has no dangling reference; here one reads as
  an object without properties.\<close>

definition obj_at :: "heap \<Rightarrow> addr \<Rightarrow> jsobj" where
  "obj_at h a = (if a < length h then h ! a else [])"

text \<open>A new object gets the next free address.\<close>

definition alloc :: "heap \<Rightarrow> jsobj \<Rightarrow> heap \<times> jsval" where
  "alloc h ob = (h @ [ob], JRef (length h))"

text \<open>Truthiness, as \<^verbatim>\<open>if (x)\<close> tests it.\<close>

fun truthy :: "jsval \<Rightarrow> bool" where
  "truthy JUndefined = False"
| "truthy JNull = False"
| "truthy (JBool b) = b"
| "truthy (JNum n) = (n \<noteq> 0)"
| "truthy (JStr s) = (s \<noteq> [])"
| "truthy (JRef a) = True"

text \<open>
  \<^verbatim>\<open>v[k]\<close>: reading a property of \<^verbatim>\<open>undefined\<close> or \<^verbatim>\<open>null\<close> throws a TypeError; an
  object answers with its own property or \<^verbatim>\<open>undefined\<close>. The built-in properties of
  primitives (the length and the indices of a string) are never read by the code modelled
  here and are not modelled: a primitive answers \<^verbatim>\<open>undefined\<close>.
\<close>

definition get_prop :: "heap \<Rightarrow> jsval \<Rightarrow> propkey \<Rightarrow> js_error + jsval" where
  "get_prop h v k =
     (case v of
        JUndefined \<Rightarrow> Inl TypeError
      | JNull \<Rightarrow> Inl TypeError
      | JRef a \<Rightarrow> Inr (case map_of (obj_at h a) k of None \<Rightarrow> JUndefined | Some x \<Rightarrow> x)
      | _ \<Rightarrow> Inr JUndefined)"

text \<open>Decimal digits of a natural number, for the index keys of a spread string.\<close>

fun digits :: "nat \<Rightarrow> nat \<Rightarrow> string" where
  "digits 0 n = []"
| "digits (Suc fuel) n =
     (if n < 10 then [char_of (48 + n)]
      else digits fuel (n div 10) @ [char_of (48 + n mod 10)])"

definition index_key :: "nat \<Rightarrow> propkey" where
  "index_key n = StrKey (digits (Suc n) n)"

fun string_entries :: "nat \<Rightarrow> string \<Rightarrow> jsobj" where
  "string_entries i [] = []"
| "string_entries i (c # cs) = (index_key i, JStr [c]) # string_entries (Suc i) cs"

text \<open>
  The properties an object spread \<^verbatim>\<open>{ ...v }\<close> copies: the own enumerable properties of an
  object (symbol keys included), the characters of a string under their indices, nothing
  for any other primitive.
\<close>

definition spread :: "heap \<Rightarrow> jsval \<Rightarrow> jsobj" where
  "spread h v =
     (case v of
        JRef a \<Rightarrow> obj_at h a
      | JStr s \<Rightarrow> string_entries 0 s
      | _ \<Rightarrow> [])"

text \<open>\<^verbatim>\<open>delete v[k]\<close> on an object of the heap; on a primitive it does nothing.\<close>

definition delete_prop :: "heap \<Rightarrow> jsval \<Rightarrow> propkey \<Rightarrow> heap" where
  "delete_prop h v k =
     (case v of
        JRef a \<Rightarrow> (if a < length h then h[a := AList.delete k (h ! a)] else h)
      | _ \<Rightarrow> h)"

section \<open>The platform: localStorage, console and JSON\<close>

text \<open>
  \<^verbatim>\<open>window.localStorage\<close> is a list of key/value strings with a quota on its total size;
  \<^verbatim>\<open>setItem\<close> throws when the quota would be exceeded and then stores nothing. Every call
  of \<^verbatim>\<open>setItem\<close> is recorded in \<open>setItemCalls\<close>, whether it succeeds or not. \<^verbatim>\<open>console\<close> holds
  the calls of \<^verbatim>\<open>console.warn\<close>: the message and the exception passed with it.
\<close>

record world =
  heap :: heap
  localStorage :: "(string \<times> string) list"
  quota :: nat
  setItemCalls :: "(string \<times> string) list"
  console :: "(string \<times> js_error) list"

definition getItem :: "world \<Rightarrow> string \<Rightarrow> string option" where
  "getItem w k = map_of (localStorage w) k"

definition storage_size :: "(string \<times> string) list \<Rightarrow> nat" where
  "storage_size items = sum_list (map (\<lambda>(k, v). length k + length v) items)"

definition setItem :: "world \<Rightarrow> string \<Rightarrow> string \<Rightarrow> world \<times> js_error option" where
  "setItem w k v =
     (let w1 = w\<lparr>setItemCalls := setItemCalls w @ [(k, v)]\<rparr>;
          items = AList.update k v (localStorage w)
      in if storage_size items > quota w then (w1, Some QuotaExceededError)
         else (w1\<lparr>localStorage := items\<rparr>, None))"

definition warn :: "world \<Rightarrow> string \<Rightarrow> js_error \<Rightarrow> world" where
  "warn w msg e = w\<lparr>console := console w @ [(msg, e)]\<rparr>"

text \<open>
  \<^verbatim>\<open>JSON.parse\<close> and \<^verbatim>\<open>JSON.stringify\<close> are the platform's and are parameters of the
  model. Parsing builds new objects, so it returns a heap; it may throw. Serialising
  reads the heap and returns a string, or \<^verbatim>\<open>undefined\<close> (written \<open>None\<close>), or throws.
\<close>

record platform =
  JSON_parse :: "heap \<Rightarrow> string \<Rightarrow> heap \<times> (js_error + jsval)"
  JSON_stringify :: "heap \<Rightarrow> jsval \<Rightarrow> js_error + string option"

text \<open>The string \<^verbatim>\<open>setItem\<close> stores for the result of \<^verbatim>\<open>JSON.stringify\<close>.\<close>

fun to_string :: "string option \<Rightarrow> string" where
  "to_string None = ''undefined''"
| "to_string (Some s) = s"

section \<open>The wrapped reduxable, the options and the wrapper\<close>

text \<open>
  An action has a type tag; the rest of it is not looked at by the wrapper. The wrapped
  reduxable (the child) gives a reducer (\<^verbatim>\<open>reduxable.reducer\<close>) and a default state
  (\<^verbatim>\<open>reduxable.defaultState\<close>, here \<open>childDefault\<close>); both are JavaScript code and may
  allocate, so they run on the heap. A reducer may throw. The transform's functions are
  the user's code too and run on the heap as well. The class \<^verbatim>\<open>Reduxable\<close> itself belongs to
  another package: of the wrapper, the getters written in this repository are modelled.
\<close>

record 'p action =
  atype :: string
  payload :: 'p

record 'p reduxable =
  reducer :: "heap \<Rightarrow> jsval \<Rightarrow> 'p action \<Rightarrow> heap \<times> (js_error + jsval)"
  childDefault :: "heap \<Rightarrow> heap \<times> jsval"

record transformer =
  transform_read :: "heap \<Rightarrow> jsval \<Rightarrow> heap \<times> (js_error + jsval)"
  transform_write :: "heap \<Rightarrow> jsval \<Rightarrow> heap \<times> (js_error + jsval)"

record options =
  opt_transform :: "transformer option"
  opt_triggers :: "string list option"

record 'p ReduxLocalStorage =
  reduxable :: "'p reduxable"
  target :: string
  transform :: transformer
  triggers :: "string list option"

definition identity_transform :: transformer where
  "identity_transform = \<lparr>transform_read = (\<lambda>h s. (h, Inr s)), transform_write = (\<lambda>h s. (h, Inr s))\<rparr>"

text \<open>The constructor (lines 34 to 45).\<close>

definition new_ReduxLocalStorage ::
  "'p reduxable \<Rightarrow> string \<Rightarrow> options option \<Rightarrow> 'p ReduxLocalStorage" where
  "new_ReduxLocalStorage r t opts =
     \<lparr>reduxable = r,
      target = t,
      transform = (case opts of
                     None \<Rightarrow> identity_transform
                   | Some ops \<Rightarrow> (case opt_transform ops of
                                   None \<Rightarrow> identity_transform
                                 | Some tr \<Rightarrow> tr)),
      triggers = (case opts of None \<Rightarrow> None | Some ops \<Rightarrow> opt_triggers ops)\<rparr>"

text \<open>The getter \<^verbatim>\<open>actionMap\<close> (lines 47 to 49) only throws.\<close>

definition actionMap :: "'p ReduxLocalStorage \<Rightarrow> js_error + jsval" where
  "actionMap this =
     Inl (Error ''ReduxLocalStorage.actionMap should only be used as a TypeScript type provider (typeof .actionMap)'')"

text \<open>
  The getter \<^verbatim>\<open>defaultState\<close> (lines 54 to 59): a new object with the properties of the
  child's default state and the marker set to \<^verbatim>\<open>true\<close>.
\<close>

definition defaultState :: "'p ReduxLocalStorage \<Rightarrow> heap \<Rightarrow> heap \<times> jsval" where
  "defaultState this h =
     (let (h1, d) = childDefault (reduxable this) h
      in alloc h1 (AList.update (SymKey defaultStateSourceMarker) (JBool True) (spread h1 d)))"

definition unmarshal_message :: string where
  "unmarshal_message = ''Could not unmarshal state from localStorage''"

definition marshal_message :: string where
  "marshal_message = ''Could not marshal state to localStorage''"

text \<open>
  Lines 69 to 83: the attempt to load the state from localStorage. The result is the
  world after it, \<^verbatim>\<open>inputState\<close> and \<^verbatim>\<open>useDefaultState\<close>.
\<close>

definition load_stored ::
  "platform \<Rightarrow> 'p ReduxLocalStorage \<Rightarrow> world \<Rightarrow> jsval \<Rightarrow> world \<times> jsval \<times> bool" where
  "load_stored P context w s =
     (case getItem w (target context) of
        None \<Rightarrow> (w, s, True)
      | Some storedStateString \<Rightarrow>
          (case JSON_parse P (heap w) storedStateString of
             (h1, Inl e) \<Rightarrow> (warn (w\<lparr>heap := h1\<rparr>) unmarshal_message e, s, True)
           | (h1, Inr parsed) \<Rightarrow>
               (case transform_read (transform context) h1 parsed of
                  (h2, Inl e) \<Rightarrow> (warn (w\<lparr>heap := h2\<rparr>) unmarshal_message e, s, True)
                | (h2, Inr st) \<Rightarrow> (w\<lparr>heap := h2\<rparr>, st, False))))"

text \<open>
  Lines 104 to 108: the attempt to store the next state. Whatever fails inside the
  \<^verbatim>\<open>try\<close> block is caught and reported by one warning.
\<close>

definition save_state ::
  "platform \<Rightarrow> 'p ReduxLocalStorage \<Rightarrow> world \<Rightarrow> jsval \<Rightarrow> world" where
  "save_state P context w nextState =
     (case transform_write (transform context) (heap w) nextState of
        (h1, Inl e) \<Rightarrow> warn (w\<lparr>heap := h1\<rparr>) marshal_message e
      | (h1, Inr m) \<Rightarrow>
          (case JSON_stringify P h1 m of
             Inl e \<Rightarrow> warn (w\<lparr>heap := h1\<rparr>) marshal_message e
           | Inr str \<Rightarrow>
               (case setItem (w\<lparr>heap := h1\<rparr>) (target context) (to_string str) of
                  (w1, Some e) \<Rightarrow> warn w1 marshal_message e
                | (w1, None) \<Rightarrow> w1)))"

text \<open>
  Lines 69 to 92: the state the child's reducer is set up with on the first call. It is
  the state loaded from localStorage, or else a copy of the incoming state from which the
  marker is deleted.
\<close>

definition initial_state ::
  "platform \<Rightarrow> 'p ReduxLocalStorage \<Rightarrow> world \<Rightarrow> jsval \<Rightarrow> world \<times> jsval" where
  "initial_state P context w s =
     (let (w1, loaded, useDefaultState) = load_stored P context w s
      in if useDefaultState then
           (let (h3, copy) = alloc (heap w1) (spread (heap w1) s)
            in (w1\<lparr>heap := delete_prop h3 copy (SymKey defaultStateSourceMarker)\<rparr>, copy))
         else (w1, loaded))"

text \<open>The reducer (lines 64 to 112).\<close>

definition internalReducer ::
  "platform \<Rightarrow> 'p ReduxLocalStorage \<Rightarrow> world \<Rightarrow> jsval \<Rightarrow> 'p action
     \<Rightarrow> world \<times> (js_error + jsval)" where
  "internalReducer P context w s a =
     (case get_prop (heap w) s (SymKey defaultStateSourceMarker) of
        Inl e \<Rightarrow> (w, Inl e)
      | Inr marker \<Rightarrow>
          if truthy marker then
            (let (w2, inputState) = initial_state P context w s;
                 (h4, r) = reducer (reduxable context) (heap w2) inputState a
             in (w2\<lparr>heap := h4\<rparr>, r))
          else
            (case reducer (reduxable context) (heap w) s a of
               (h1, Inl e) \<Rightarrow> (w\<lparr>heap := h1\<rparr>, Inl e)
             | (h1, Inr nextState) \<Rightarrow>
                 (if nextState \<noteq> s \<and>
                     (case triggers context of
                        None \<Rightarrow> True
                      | Some ts \<Rightarrow> atype a \<in> set ts)
                  then (save_state P context (w\<lparr>heap := h1\<rparr>) nextState, Inr nextState)
                  else (w\<lparr>heap := h1\<rparr>, Inr nextState))))"

text \<open>
  Modelled from the spec: the public reducer of the wrapper. A store calls
  \<^verbatim>\<open>reducer\<close>, which the class \<^verbatim>\<open>Reduxable\<close> of the package \<^verbatim>\<open>@weavedev/reduxable\<close> defines
  and which is not in \<^verbatim>\<open>src/\<close>. The spec has the initialization branch run on an
  uninitialized input, and the tests call \<^verbatim>\<open>reducer(undefined, action)\<close> and expect the
  state built from the default state: the public reducer passes \<^verbatim>\<open>internalReducer\<close> the
  value of the getter \<^verbatim>\<open>defaultState\<close> where the state is \<^verbatim>\<open>undefined\<close>, as a default parameter
  does, and the state it is given otherwise.
\<close>

definition wrapper_reducer ::
  "platform \<Rightarrow> 'p ReduxLocalStorage \<Rightarrow> world \<Rightarrow> jsval \<Rightarrow> 'p action
     \<Rightarrow> world \<times> (js_error + jsval)" where
  "wrapper_reducer P context w state a =
     (if state = JUndefined
      then (let (h, s) = defaultState context (heap w)
            in internalReducer P context (w\<lparr>heap := h\<rparr>) s a)
      else internalReducer P context w state a)"

text \<open>
  A store drives a reducer from the default state through a list of actions. A run
  yields the world (for the child alone: the heap) and the state after each action, in
  order; it ends at an exception. The child's \<open>reducer\<close> is its public reducer.
\<close>

fun run_wrapper ::
  "platform \<Rightarrow> 'p ReduxLocalStorage \<Rightarrow> world \<Rightarrow> jsval \<Rightarrow> 'p action list
     \<Rightarrow> (world \<times> jsval) list" where
  "run_wrapper P context w s [] = []"
| "run_wrapper P context w s (a # acts) =
     (case wrapper_reducer P context w s a of
        (w1, Inl e) \<Rightarrow> []
      | (w1, Inr s1) \<Rightarrow> (w1, s1) # run_wrapper P context w1 s1 acts)"

fun run_child ::
  "'p reduxable \<Rightarrow> heap \<Rightarrow> jsval \<Rightarrow> 'p action list \<Rightarrow> (heap \<times> jsval) list" where
  "run_child r h s [] = []"
| "run_child r h s (a # acts) =
     (case reducer r h s a of
        (h1, Inl e) \<Rightarrow> []
      | (h1, Inr s1) \<Rightarrow> (h1, s1) # run_child r h1 s1 acts)"

definition wrapper_states ::
  "platform \<Rightarrow> 'p ReduxLocalStorage \<Rightarrow> world \<Rightarrow> 'p action list \<Rightarrow> (world \<times> jsval) list" where
  "wrapper_states P context w acts =
     (let (h, s0) = defaultState context (heap w)
      in run_wrapper P context (w\<lparr>heap := h\<rparr>) s0 acts)"

definition child_states :: "'p reduxable \<Rightarrow> heap \<Rightarrow> 'p action list \<Rightarrow> (heap \<times> jsval) list" where
  "child_states r h acts = (let (h1, d) = childDefault r h in run_child r h1 d acts)"

section \<open>Observing states\<close>

text \<open>
  What a caller can see of a state is its content, not its address: the view of a value
  to a given depth. Two states are the same for a caller when their views agree to every
  depth (deep equality, also of cyclic structures).
\<close>

datatype view = VPrim jsval | VCut | VObj "(propkey \<times> view) list"

primrec snapshot :: "nat \<Rightarrow> heap \<Rightarrow> jsval \<Rightarrow> view" where
  "snapshot 0 h v = (case v of JRef a \<Rightarrow> VCut | _ \<Rightarrow> VPrim v)"
| "snapshot (Suc n) h v =
     (case v of
        JRef a \<Rightarrow> VObj (map (\<lambda>(k, x). (k, snapshot n h x)) (obj_at h a))
      | _ \<Rightarrow> VPrim v)"

definition same_state :: "heap \<Rightarrow> jsval \<Rightarrow> heap \<Rightarrow> jsval \<Rightarrow> bool" where
  "same_state h v h' v' = (\<forall>n. snapshot n h v = snapshot n h' v')"

text \<open>A heap is well formed when no reference in it dangles.\<close>

definition valid :: "heap \<Rightarrow> jsval \<Rightarrow> bool" where
  "valid h v = (case v of JRef a \<Rightarrow> a < length h | _ \<Rightarrow> True)"

definition wf_heap :: "heap \<Rightarrow> bool" where
  "wf_heap h = list_all (\<lambda>ob. list_all (\<lambda>(k, v). valid h v) ob) h"

text \<open>The marker is on a value when the value is an object with the marker among its
  own properties, whatever the property's value.\<close>

definition has_marker :: "heap \<Rightarrow> jsval \<Rightarrow> bool" where
  "has_marker h v =
     (case v of
        JRef a \<Rightarrow> map_of (obj_at h a) (SymKey defaultStateSourceMarker) \<noteq> None
      | _ \<Rightarrow> False)"

section \<open>The test fixture and a reference platform\<close>

text \<open>
  The class \<^verbatim>\<open>Test\<close> of the test suite: its state is
  \<^verbatim>\<open>{ data, reducer, updated }\<close>. The reducer sets \<^verbatim>\<open>reducer\<close> on a state that has it not
  (in a copy), and on the action \<^verbatim>\<open>TEST\<close> returns a copy with \<^verbatim>\<open>data\<close> taken from the
  action. The payload of an action is its \<^verbatim>\<open>data\<close> (\<^verbatim>\<open>undefined\<close> when it has none).
\<close>

definition Test_defaultState :: "heap \<Rightarrow> heap \<times> jsval" where
  "Test_defaultState h =
     (let (h1, u) = alloc h []
      in alloc h1 [(StrKey ''data'', JStr ''''), (StrKey ''reducer'', JBool False),
                   (StrKey ''updated'', u)])"

definition Test_reducer :: "heap \<Rightarrow> jsval \<Rightarrow> jsval action \<Rightarrow> heap \<times> (js_error + jsval)" where
  "Test_reducer h state0 act =
     (let (h0, state) = (if state0 = JUndefined then Test_defaultState h else (h, state0))
      in case get_prop h0 state (StrKey ''reducer'') of
           Inl e \<Rightarrow> (h0, Inl e)
         | Inr r \<Rightarrow>
             (let (h1, s) =
                    (if truthy r then (h0, state)
                     else alloc h0 (AList.update (StrKey ''reducer'') (JBool True)
                                      (spread h0 state)))
              in if atype act = ''TEST''
                 then (let (h2, s') = alloc h1 (AList.update (StrKey ''data'') (payload act)
                                                  (spread h1 s))
                       in (h2, Inr s'))
                 else (h1, Inr s)))"

definition Test :: "jsval reduxable" where
  "Test = \<lparr>reducer = Test_reducer, childDefault = Test_defaultState\<rparr>"

text \<open>
  A reference \<^verbatim>\<open>JSON\<close> for the values of this model (plain objects, ASCII strings,
  integers, booleans, \<^verbatim>\<open>null\<close>), used where a theorem is run on a concrete input and
  where a theorem says what \<^verbatim>\<open>JSON\<close> itself does with a state. What the theorems say of
  the wrapper holds for every platform.

  \<^verbatim>\<open>JSON.stringify\<close> skips symbol keys and properties whose value is \<^verbatim>\<open>undefined\<close>, and
  throws a TypeError on a cyclic structure: a path through an acyclic heap is no longer
  than the heap, so a path that is longer has run into a cycle.
\<close>

definition hex_digit :: "nat \<Rightarrow> char" where
  "hex_digit n = (if n < 10 then char_of (48 + n) else char_of (87 + n))"

fun escape_char :: "char \<Rightarrow> string" where
  "escape_char c =
     (if c = CHR 0x22 then [CHR 0x5C, CHR 0x22]
      else if c = CHR 0x5C then [CHR 0x5C, CHR 0x5C]
      else if c = CHR 0x08 then [CHR 0x5C, CHR ''b'']
      else if c = CHR 0x09 then [CHR 0x5C, CHR ''t'']
      else if c = CHR 0x0A then [CHR 0x5C, CHR ''n'']
      else if c = CHR 0x0C then [CHR 0x5C, CHR ''f'']
      else if c = CHR 0x0D then [CHR 0x5C, CHR ''r'']
      else if of_char c < (32 :: nat)
        then [CHR 0x5C, CHR ''u'', CHR ''0'', CHR ''0'',
              hex_digit (of_char c div 16), hex_digit (of_char c mod 16)]
      else [c])"

definition quote :: "string \<Rightarrow> string" where
  "quote s = [CHR 0x22] @ concat (map escape_char s) @ [CHR 0x22]"

definition show_int :: "int \<Rightarrow> string" where
  "show_int n = (if n < 0 then CHR ''-'' # digits (Suc (nat (- n))) (nat (- n))
                 else digits (Suc (nat n)) (nat n))"

fun join :: "string list \<Rightarrow> string" where
  "join [] = []"
| "join [x] = x"
| "join (x # y # ys) = x @ '','' @ join (y # ys)"

fun stringify_value :: "nat \<Rightarrow> heap \<Rightarrow> jsval \<Rightarrow> js_error + string option"
  and stringify_members :: "nat \<Rightarrow> heap \<Rightarrow> jsobj \<Rightarrow> js_error + string list" where
  "stringify_value fuel h JUndefined = Inr None"
| "stringify_value fuel h JNull = Inr (Some ''null'')"
| "stringify_value fuel h (JBool b) = Inr (Some (if b then ''true'' else ''false''))"
| "stringify_value fuel h (JNum n) = Inr (Some (show_int n))"
| "stringify_value fuel h (JStr s) = Inr (Some (quote s))"
| "stringify_value 0 h (JRef a) = Inl TypeError"
| "stringify_value (Suc fuel) h (JRef a) =
     (case stringify_members fuel h (obj_at h a) of
        Inl e \<Rightarrow> Inl e
      | Inr ms \<Rightarrow> Inr (Some (''{'' @ join ms @ ''}'')))"
| "stringify_members fuel h [] = Inr []"
| "stringify_members fuel h ((k, v) # kvs) =
     (case k of
        SymKey y \<Rightarrow> stringify_members fuel h kvs
      | StrKey name \<Rightarrow>
          (case stringify_value fuel h v of
             Inl e \<Rightarrow> Inl e
           | Inr None \<Rightarrow> stringify_members fuel h kvs
           | Inr (Some t) \<Rightarrow>
               (case stringify_members fuel h kvs of
                  Inl e \<Rightarrow> Inl e
                | Inr ms \<Rightarrow> Inr ((quote name @ '':'' @ t) # ms))))"

definition json_stringify :: "heap \<Rightarrow> jsval \<Rightarrow> js_error + string option" where
  "json_stringify h v = stringify_value (Suc (length h)) h v"

text \<open>
  \<^verbatim>\<open>JSON.parse\<close> for the same fragment: objects, strings with the simple escapes,
  integers, \<^verbatim>\<open>true\<close>, \<^verbatim>\<open>false\<close> and \<^verbatim>\<open>null\<close>. Every text outside the fragment is refused
  with a SyntaxError here (JavaScript also reads arrays, fractions, exponents and
  unicode escapes). Every call consumes a character, so the length of the text is fuel
  enough.
\<close>

definition is_ws :: "char \<Rightarrow> bool" where
  "is_ws c = (c = CHR '' '' \<or> c = CHR 0x09 \<or> c = CHR 0x0A \<or> c = CHR 0x0D)"

definition skip_ws :: "string \<Rightarrow> string" where
  "skip_ws cs = dropWhile is_ws cs"

definition is_digit :: "char \<Rightarrow> bool" where
  "is_digit c = ((48 :: nat) \<le> of_char c \<and> of_char c \<le> (57 :: nat))"

definition unescape :: "char \<Rightarrow> char option" where
  "unescape c =
     (if c = CHR 0x22 \<or> c = CHR 0x5C \<or> c = CHR ''/'' then Some c
      else if c = CHR ''b'' then Some (CHR 0x08)
      else if c = CHR ''t'' then Some (CHR 0x09)
      else if c = CHR ''n'' then Some (CHR 0x0A)
      else if c = CHR ''f'' then Some (CHR 0x0C)
      else if c = CHR ''r'' then Some (CHR 0x0D)
      else None)"

text \<open>The characters after an opening quote, up to the closing one.\<close>

fun parse_string_body :: "string \<Rightarrow> (string \<times> string) option" where
  "parse_string_body [] = None"
| "parse_string_body [c] = (if c = CHR 0x22 then Some ([], []) else None)"
| "parse_string_body (c # d # cs) =
     (if c = CHR 0x22 then Some ([], d # cs)
      else if c = CHR 0x5C then
        (case unescape d of
           None \<Rightarrow> None
         | Some x \<Rightarrow> (case parse_string_body cs of
                        None \<Rightarrow> None
                      | Some (s, rest) \<Rightarrow> Some (x # s, rest)))
      else if of_char c < (32 :: nat) then None
      else (case parse_string_body (d # cs) of
              None \<Rightarrow> None
            | Some (s, rest) \<Rightarrow> Some (c # s, rest)))"

definition digits_value :: "string \<Rightarrow> nat" where
  "digits_value ds = foldl (\<lambda>acc c. 10 * acc + (of_char c - 48)) 0 ds"

text \<open>An integer literal: an optional minus sign, then \<^verbatim>\<open>0\<close> or digits without a leading
  zero; a fraction or an exponent after it is outside the fragment.\<close>

definition parse_number :: "string \<Rightarrow> (int \<times> string) option" where
  "parse_number cs =
     (let neg = (cs \<noteq> [] \<and> hd cs = CHR ''-'');
          body = (if neg then tl cs else cs);
          ds = takeWhile is_digit body;
          rest = dropWhile is_digit body
      in if ds = [] \<or> (length ds > 1 \<and> hd ds = CHR ''0'') then None
         else if rest \<noteq> [] \<and> (hd rest = CHR ''.'' \<or> hd rest = CHR ''e'' \<or> hd rest = CHR ''E'')
           then None
         else Some (if neg then - int (digits_value ds) else int (digits_value ds), rest))"

fun parse_value :: "nat \<Rightarrow> heap \<Rightarrow> string \<Rightarrow> (heap \<times> jsval \<times> string) option"
  and parse_members :: "nat \<Rightarrow> heap \<Rightarrow> jsobj \<Rightarrow> string \<Rightarrow> (heap \<times> jsobj \<times> string) option" where
  "parse_value 0 h cs = None"
| "parse_value (Suc fuel) h cs =
     (case skip_ws cs of
        [] \<Rightarrow> None
      | c # r \<Rightarrow>
          if c = CHR ''{'' then
            (case skip_ws r of
               [] \<Rightarrow> None
             | d # r1 \<Rightarrow>
                 if d = CHR ''}'' then (let (h1, v) = alloc h [] in Some (h1, v, r1))
                 else (case parse_members fuel h [] (d # r1) of
                         None \<Rightarrow> None
                       | Some (h1, ob, r2) \<Rightarrow> (let (h2, v) = alloc h1 ob in Some (h2, v, r2))))
          else if c = CHR 0x22 then
            (case parse_string_body r of
               None \<Rightarrow> None
             | Some (s, r1) \<Rightarrow> Some (h, JStr s, r1))
          else if take 4 (c # r) = ''true'' then Some (h, JBool True, drop 4 (c # r))
          else if take 5 (c # r) = ''false'' then Some (h, JBool False, drop 5 (c # r))
          else if take 4 (c # r) = ''null'' then Some (h, JNull, drop 4 (c # r))
          else (case parse_number (c # r) of
                  None \<Rightarrow> None
                | Some (n, r1) \<Rightarrow> Some (h, JNum n, r1)))"
| "parse_members 0 h acc cs = None"
| "parse_members (Suc fuel) h acc cs =
     (case skip_ws cs of
        [] \<Rightarrow> None
      | c # r \<Rightarrow>
          if c \<noteq> CHR 0x22 then None
          else (case parse_string_body r of
                  None \<Rightarrow> None
                | Some (k, r1) \<Rightarrow>
                    (case skip_ws r1 of
                       [] \<Rightarrow> None
                     | d # r2 \<Rightarrow>
                         if d \<noteq> CHR '':'' then None
                         else (case parse_value fuel h r2 of
                                 None \<Rightarrow> None
                               | Some (h1, v, r3) \<Rightarrow>
                                   (case skip_ws r3 of
                                      [] \<Rightarrow> None
                                    | e # r4 \<Rightarrow>
                                        if e = CHR '','' then
                                          parse_members fuel h1 (AList.update (StrKey k) v acc) r4
                                        else if e = CHR ''}'' then
                                          Some (h1, AList.update (StrKey k) v acc, r4)
                                        else None)))))"

definition json_parse :: "heap \<Rightarrow> string \<Rightarrow> heap \<times> (js_error + jsval)" where
  "json_parse h s =
     (case parse_value (Suc (length s)) h s of
        None \<Rightarrow> (h, Inl SyntaxError)
      | Some (h1, v, rest) \<Rightarrow>
          if skip_ws rest = [] then (h1, Inr v) else (h, Inl SyntaxError))"

definition reference_platform :: platform where
  "reference_platform = \<lparr>JSON_parse = json_parse, JSON_stringify = json_stringify\<rparr>"

section \<open>The scenarios of the test suite\<close>

text \<open>
  The store of the test suite starts with an empty localStorage. The three wrappers of
  the suite: \<open>rlswt\<close> saves on the action \<^verbatim>\<open>TEST\<close> only, \<open>rlsst\<close> on every change, \<open>rlsnt\<close>
  never.
\<close>

definition empty_world :: world where
  "empty_world = \<lparr>heap = [], localStorage = [], quota = 1000, setItemCalls = [], console = []\<rparr>"

definition rlswt :: "jsval ReduxLocalStorage" where
  "rlswt = new_ReduxLocalStorage Test ''rlswt''
             (Some \<lparr>opt_transform = None, opt_triggers = Some [''TEST'']\<rparr>)"

definition rlsst :: "jsval ReduxLocalStorage" where
  "rlsst = new_ReduxLocalStorage Test ''rlsst'' None"

definition rlsnt :: "jsval ReduxLocalStorage" where
  "rlsnt = new_ReduxLocalStorage Test ''rlsnt''
             (Some \<lparr>opt_transform = None, opt_triggers = Some []\<rparr>)"

definition TEST :: "jsval \<Rightarrow> jsval action" where
  "TEST d = \<lparr>atype = ''TEST'', payload = d\<rparr>"

definition INIT :: "jsval action" where
  "INIT = \<lparr>atype = ''@@'', payload = JUndefined\<rparr>"

text \<open>A world whose heap holds the state \<^verbatim>\<open>{ data: '', reducer: true, updated: {} }\<close> at
  address 1, as the tests pass it to a reducer.\<close>

definition plain_state_world :: world where
  "plain_state_world =
     empty_world\<lparr>heap := [[], [(StrKey ''data'', JStr ''''), (StrKey ''reducer'', JBool True),
                                 (StrKey ''updated'', JRef 0)]]\<rparr>"

text \<open>The same with the circular object \<^verbatim>\<open>data = { item: 5 }; data.child = data\<close> at
  address 2.\<close>

definition circular_world :: world where
  "circular_world =
     empty_world\<lparr>heap := [[], [(StrKey ''data'', JStr ''''), (StrKey ''reducer'', JBool True),
                                 (StrKey ''updated'', JRef 0)],
                            [(StrKey ''item'', JNum 5), (StrKey ''child'', JRef 2)]]\<rparr>"

text \<open>A world in which a wrapper's default state has just been taken: the marked state
  is the last object of the heap.\<close>

definition started :: "'p ReduxLocalStorage \<Rightarrow> world \<Rightarrow> world" where
  "started this w = w\<lparr>heap := fst (defaultState this (heap w))\<rparr>"

definition marked_state :: "'p ReduxLocalStorage \<Rightarrow> world \<Rightarrow> jsval" where
  "marked_state this w = snd (defaultState this (heap w))"

text \<open>The serialised state \<^verbatim>\<open>{"data":d,"reducer":true,"updated":{}}\<close>.\<close>

definition state_json :: "string \<Rightarrow> string" where
  "state_json d = ''{'' @ quote ''data'' @ '':'' @ quote d @ '','' @ quote ''reducer''
                    @ '':true,'' @ quote ''updated'' @ '':{}}''"

text \<open>The wrapper and the world of the test
  \<^verbatim>\<open>Should warn when localStorage can not be unmarshalled\<close>.\<close>

definition broken :: "jsval ReduxLocalStorage" where
  "broken = new_ReduxLocalStorage Test ''broken'' None"

definition broken_world :: world where
  "broken_world =
     started broken
       (empty_world\<lparr>localStorage := [(''broken'', ''{'' @ quote ''broken'' @ '':'' @ quote ''JSON'')]\<rparr>)"

text \<open>The wrapper and the world of the test \<^verbatim>\<open>Should read from localStorage on init\<close>.\<close>

definition reader :: "jsval ReduxLocalStorage" where
  "reader = new_ReduxLocalStorage Test ''reader'' None"

definition reader_world :: world where
  "reader_world =
     started reader
       (empty_world\<lparr>localStorage := [(''reader'', state_json ''i was already here'')]\<rparr>)"

section \<open>Contracts of the collaborators\<close>


text \<open>Two objects have the same content when they have the same keys in the same order
  and, key by key, the same values for a caller.\<close>

definition same_obj :: "heap \<Rightarrow> jsobj \<Rightarrow> heap \<Rightarrow> jsobj \<Rightarrow> bool" where
  "same_obj h ob h' ob' =
     list_all2 (\<lambda>(k, x) (k', x'). k = k' \<and> same_state h x h' x') ob ob'"

text \<open>The states of a run of the child alone and of a run of the wrapper are the same,
  one by one, each seen in the heap it was returned in; the two runs have the same
  length, so one ends at an exception where the other does.\<close>

definition same_states :: "(heap \<times> jsval) list \<Rightarrow> (world \<times> jsval) list \<Rightarrow> bool" where
  "same_states cs ws = list_all2 (\<lambda>(g, s) (w, t). same_state g s (heap w) t) cs ws"

text \<open>
  Code that is pure makes new objects and leaves the old ones alone: the heap after it
  starts with the heap before it. A state \<open>v\<close> in a heap \<open>h\<close> is a later state of the
  heap \<open>h0\<close> when \<open>h\<close> is well formed and has grown from \<open>h0\<close> in this way.
\<close>

definition extends_heap :: "heap \<Rightarrow> heap \<Rightarrow> bool" where
  "extends_heap h g = (take (length h) g = h)"

definition later_state :: "heap \<Rightarrow> heap \<Rightarrow> jsval \<Rightarrow> bool" where
  "later_state h0 h v = (extends_heap h0 h \<and> wf_heap h \<and> valid h v)"

text \<open>Two results of a reducer agree when both are exceptions, or both are states that
  are the same for a caller.\<close>

definition agree ::
  "heap \<Rightarrow> heap \<times> (js_error + jsval) \<Rightarrow> heap \<times> (js_error + jsval) \<Rightarrow> bool" where
  "agree h0 x y =
     (case snd x of
        Inl e \<Rightarrow> (case snd y of Inl e' \<Rightarrow> True | Inr s' \<Rightarrow> False)
      | Inr s \<Rightarrow> (case snd y of
                   Inl e' \<Rightarrow> False
                 | Inr s' \<Rightarrow> later_state h0 (fst x) s \<and> later_state h0 (fst y) s'
                             \<and> same_state (fst x) s (fst y) s'))"

text \<open>
  The child is pure on the actions \<open>A\<close>, from the heap \<open>h0\<close> on: what its reducer does
  depends on the content of the state only, not on its address or on what else the heap
  holds. Given the same state twice, it throws twice or returns the same state twice. No
  kind of state is excluded and the reducer may throw.
\<close>

definition pure_child :: "'p reduxable \<Rightarrow> heap \<Rightarrow> 'p action set \<Rightarrow> bool" where
  "pure_child r h0 A =
     (\<forall>a \<in> A. \<forall>h v h' v'. later_state h0 h v \<and> later_state h0 h' v' \<and> same_state h v h' v'
        \<longrightarrow> agree h0 (reducer r h v a) (reducer r h' v' a))"

text \<open>The child's default state, taken in the heap \<open>h0\<close>, is a new plain object that
  does not carry the marker.\<close>

definition plain_default :: "'p reduxable \<Rightarrow> heap \<Rightarrow> bool" where
  "plain_default r h0 =
     (case childDefault r h0 of
        (h1, d) \<Rightarrow> later_state h0 h1 d \<and> (case d of JRef a \<Rightarrow> True | _ \<Rightarrow> False)
                   \<and> \<not> has_marker h1 d)"

text \<open>The transform's \<^verbatim>\<open>write\<close> is pure: it may make new objects and leaves the old
  ones, the state among them, alone.\<close>

definition pure_write :: "transformer \<Rightarrow> bool" where
  "pure_write T =
     (\<forall>h v h2 r. wf_heap h \<and> valid h v \<and> transform_write T h v = (h2, r)
        \<longrightarrow> extends_heap h h2 \<and> wf_heap h2)"

text \<open>
  A state the wrapper's reducer passes to the child as it is: it is not \<^verbatim>\<open>undefined\<close> (for
  which the public reducer takes the marked default state), it is not \<^verbatim>\<open>null\<close> (on which
  reading the marker throws), and it carries no truthy marker (with which the wrapper
  initializes again).
\<close>

definition passable :: "heap \<Rightarrow> jsval \<Rightarrow> bool" where
  "passable h v =
     (case get_prop h v (SymKey defaultStateSourceMarker) of
        Inl e \<Rightarrow> False
      | Inr m \<Rightarrow> \<not> truthy m)"

text \<open>The states of a run that are passed to the reducer again: all but the one
  returned for the last action.\<close>

definition passed_on :: "'a list \<Rightarrow> 'b list \<Rightarrow> 'b list" where
  "passed_on acts states = take (length acts - 1) states"




text \<open>
  A reduxable whose state is a primitive: it holds the last value set and starts at 0.
  \<^verbatim>\<open>
  get defaultState() { return 0; }
  get internalReducer() {
      return (state = 0, action) => action.type === 'SET' ? action.data : state;
  }
  \<close>
\<close>

definition Value_reducer :: "heap \<Rightarrow> jsval \<Rightarrow> jsval action \<Rightarrow> heap \<times> (js_error + jsval)" where
  "Value_reducer h state0 act =
     (let state = (if state0 = JUndefined then JNum 0 else state0)
      in if atype act = ''SET'' then (h, Inr (payload act)) else (h, Inr state))"

definition Value :: "jsval reduxable" where
  "Value = \<lparr>reducer = Value_reducer, childDefault = (\<lambda>h. (h, JNum 0))\<rparr>"

definition rlsv :: "jsval ReduxLocalStorage" where
  "rlsv = new_ReduxLocalStorage Value ''value'' None"

definition SET :: "jsval \<Rightarrow> jsval action" where
  "SET d = \<lparr>atype = ''SET'', payload = d\<rparr>"

definition CLEAR :: "jsval action" where
  "CLEAR = \<lparr>atype = ''CLEAR'', payload = JUndefined\<rparr>"

text \<open>
  A reduxable that holds whatever was last set. Its default state is a new object with
  the properties \<open>initial\<close>: \<^verbatim>\<open>{}\<close> for \<open>Holder []\<close>.
  \<^verbatim>\<open>
  get defaultState() { return { ...initial }; }
  get internalReducer() {
      return (state = this.defaultState, action) => {
          switch (action.type) {
              case 'SET': return action.data;
              case 'CLEAR': return undefined;
              default: return state;
          }
      };
  }
  \<close>
\<close>

definition Holder_reducer ::
  "jsobj \<Rightarrow> heap \<Rightarrow> jsval \<Rightarrow> jsval action \<Rightarrow> heap \<times> (js_error + jsval)" where
  "Holder_reducer initial h state0 act =
     (let (h1, state) = (if state0 = JUndefined then alloc h initial else (h, state0))
      in if atype act = ''SET'' then (h1, Inr (payload act))
         else if atype act = ''CLEAR'' then (h1, Inr JUndefined)
         else (h1, Inr state))"

definition Holder :: "jsobj \<Rightarrow> jsval reduxable" where
  "Holder initial = \<lparr>reducer = Holder_reducer initial, childDefault = (\<lambda>h. alloc h initial)\<rparr>"

text \<open>Wrappers of it: \<open>rlsh\<close> saves on every change, \<open>rlsht\<close> on the action \<^verbatim>\<open>SET\<close> only; the
  default state of the child of \<open>rlshm\<close> has the marker property, set to \<^verbatim>\<open>false\<close>.\<close>

definition rlsh :: "jsval ReduxLocalStorage" where
  "rlsh = new_ReduxLocalStorage (Holder []) ''holder'' None"

definition rlsht :: "jsval ReduxLocalStorage" where
  "rlsht = new_ReduxLocalStorage (Holder []) ''holder''
             (Some \<lparr>opt_transform = None, opt_triggers = Some [''SET'']\<rparr>)"

definition rlshm :: "jsval ReduxLocalStorage" where
  "rlshm = new_ReduxLocalStorage (Holder [(SymKey defaultStateSourceMarker, JBool False)])
             ''holder'' None"

text \<open>
  A transform whose \<^verbatim>\<open>write\<close> changes the state it is given:
  \<^verbatim>\<open>write: (s) => { s.data = ''; return s; }\<close>, with the identity for \<^verbatim>\<open>read\<close>. Setting a
  property of a primitive throws a TypeError in strict mode.
\<close>

definition blanking_transform :: transformer where
  "blanking_transform =
     \<lparr>transform_read = (\<lambda>h s. (h, Inr s)),
      transform_write = (\<lambda>h s.
        (case s of
           JRef a \<Rightarrow> ((if a < length h
                       then h[a := AList.update (StrKey ''data'') (JStr '''') (h ! a)] else h),
                      Inr s)
         | _ \<Rightarrow> (h, Inl TypeError)))\<rparr>"

definition rlsb :: "jsval ReduxLocalStorage" where
  "rlsb = new_ReduxLocalStorage Test ''blank''
            (Some \<lparr>opt_transform = Some blanking_transform, opt_triggers = None\<rparr>)"



text \<open>
  The transform of the tests \<^verbatim>\<open>Should transform data before writing to localStorage\<close>
  and \<^verbatim>\<open>Should transform data after reading from localStorage\<close>: it writes the data of the
  state as a string and reads a string into a state. A template literal converts its
  argument to a string.
\<close>

definition js_to_string :: "jsval \<Rightarrow> string" where
  "js_to_string v =
     (case v of
        JUndefined \<Rightarrow> ''undefined''
      | JNull \<Rightarrow> ''null''
      | JBool b \<Rightarrow> (if b then ''true'' else ''false'')
      | JNum n \<Rightarrow> show_int n
      | JStr s \<Rightarrow> s
      | JRef a \<Rightarrow> ''[object Object]'')"

definition test_transform :: transformer where
  "test_transform =
     \<lparr>transform_read = (\<lambda>h s.
        (let (h1, u) = alloc h [];
             (h2, v) = alloc h1 [(StrKey ''data'', JStr (''Transformed read: '' @ js_to_string s)),
                                 (StrKey ''reducer'', JBool True), (StrKey ''updated'', u)]
         in (h2, Inr v))),
      transform_write = (\<lambda>h s.
        (case get_prop h s (StrKey ''data'') of
           Inl e \<Rightarrow> (h, Inl e)
         | Inr d \<Rightarrow> (h, Inr (JStr (''Transformed write: '' @ js_to_string d)))))\<rparr>"

definition writeTransformer :: "jsval ReduxLocalStorage" where
  "writeTransformer = new_ReduxLocalStorage Test ''writeTransformer''
     (Some \<lparr>opt_transform = Some test_transform, opt_triggers = None\<rparr>)"

definition readTransformer :: "jsval ReduxLocalStorage" where
  "readTransformer = new_ReduxLocalStorage Test ''readTransformer''
     (Some \<lparr>opt_transform = Some test_transform, opt_triggers = None\<rparr>)"


section \<open>The accessor actionMap\<close>

text \<open>
  C8. Every call of the wrapper's \<^verbatim>\<open>actionMap\<close> accessor throws an error, whatever the
  child, the storage key and the options the wrapper was constructed with; it never
  returns a value.
\<close>

theorem actionMap_throws:
  "(\<exists>msg. actionMap (new_ReduxLocalStorage r t opts) = Inl (Error msg))
   \<and> (\<forall>v. actionMap (new_ReduxLocalStorage r t opts) \<noteq> Inr v)
   \<and> (\<exists>msg. actionMap this = Inl (Error msg))
   \<and> (\<forall>v. actionMap this \<noteq> Inr v)"
  by (simp add: actionMap_def)

section \<open>The model against the test suite\<close>

text \<open>
  The model run on the inputs of the tests gives what the tests expect: the texts stored
  by the three wrappers, and the work of a transform on the way to and from localStorage.
\<close>

lemma test_write_on_triggers:
  "localStorage (fst (internalReducer reference_platform rlswt plain_state_world (JRef 1)
                        (TEST (JStr ''am i writing''))))
     = [(''rlswt'', state_json ''am i writing'')]
   \<and> localStorage (fst (internalReducer reference_platform rlsst plain_state_world (JRef 1)
                        (TEST (JStr ''am i writing''))))
     = [(''rlsst'', state_json ''am i writing'')]
   \<and> localStorage (fst (internalReducer reference_platform rlsnt plain_state_world (JRef 1)
                        (TEST (JStr ''am i writing'')))) = []"
  by code_simp

lemma test_transform_before_writing:
  "localStorage (fst (internalReducer reference_platform writeTransformer plain_state_world
                        (JRef 1) (TEST (JStr ''new data''))))
     = [(''writeTransformer'', quote ''Transformed write: new data'')]"
  by code_simp

lemma test_transform_after_reading:
  "(case internalReducer reference_platform readTransformer
           (started readTransformer
              (empty_world\<lparr>localStorage := [(''readTransformer'', quote ''read me'')]\<rparr>))
           (JRef 2) INIT of
      (w, r) \<Rightarrow> (r, obj_at (heap w) 4, console w))
   = (Inr (JRef 4),
      [(StrKey ''data'', JStr ''Transformed read: read me''), (StrKey ''reducer'', JBool True),
       (StrKey ''updated'', JRef 3)], [])"
  by code_simp

section \<open>What a call of the reducer does to the world\<close>

lemma load_stored_frame:
  "load_stored P ctx w s = (w1, st, u) \<Longrightarrow>
     localStorage w1 = localStorage w \<and> setItemCalls w1 = setItemCalls w \<and> quota w1 = quota w"
  by (auto simp: load_stored_def warn_def split: option.splits prod.splits sum.splits)

lemma initial_state_frame:
  "initial_state P ctx w s = (w2, i) \<Longrightarrow>
     localStorage w2 = localStorage w \<and> setItemCalls w2 = setItemCalls w \<and> quota w2 = quota w"
  by (auto simp: initial_state_def Let_def alloc_def split: prod.splits if_splits
           dest: load_stored_frame)

text \<open>The four ways the \<^verbatim>\<open>try\<close> block of lines 104 to 108 can end.\<close>

lemma save_state_cases:
  assumes "save_state P ctx w nextState = w'"
  shows "quota w' = quota w \<and>
    ((\<exists>h1 m str. transform_write (transform ctx) (heap w) nextState = (h1, Inr m)
        \<and> JSON_stringify P h1 m = Inr str
        \<and> storage_size (AList.update (target ctx) (to_string str) (localStorage w)) \<le> quota w
        \<and> heap w' = h1 \<and> console w' = console w
        \<and> setItemCalls w' = setItemCalls w @ [(target ctx, to_string str)]
        \<and> localStorage w' = AList.update (target ctx) (to_string str) (localStorage w))
   \<or> (\<exists>h1 m str. transform_write (transform ctx) (heap w) nextState = (h1, Inr m)
        \<and> JSON_stringify P h1 m = Inr str
        \<and> quota w < storage_size (AList.update (target ctx) (to_string str) (localStorage w))
        \<and> heap w' = h1 \<and> console w' = console w @ [(marshal_message, QuotaExceededError)]
        \<and> setItemCalls w' = setItemCalls w @ [(target ctx, to_string str)]
        \<and> localStorage w' = localStorage w)
   \<or> (\<exists>h1 m e. transform_write (transform ctx) (heap w) nextState = (h1, Inr m)
        \<and> JSON_stringify P h1 m = Inl e
        \<and> heap w' = h1 \<and> console w' = console w @ [(marshal_message, e)]
        \<and> setItemCalls w' = setItemCalls w \<and> localStorage w' = localStorage w)
   \<or> (\<exists>h1 e. transform_write (transform ctx) (heap w) nextState = (h1, Inl e)
        \<and> heap w' = h1 \<and> console w' = console w @ [(marshal_message, e)]
        \<and> setItemCalls w' = setItemCalls w \<and> localStorage w' = localStorage w))"
  using assms
  by (auto simp: save_state_def warn_def setItem_def Let_def
           split: prod.splits sum.splits option.splits if_splits)

lemma normal_branch:
  assumes "get_prop (heap w) s (SymKey defaultStateSourceMarker) = Inr m" and "\<not> truthy m"
    and "reducer (reduxable ctx) (heap w) s a = (h1, Inr nextState)"
  shows "internalReducer P ctx w s a =
     (if nextState \<noteq> s \<and> (triggers ctx = None \<or> (\<exists>ts. triggers ctx = Some ts \<and> atype a \<in> set ts))
      then (save_state P ctx (w\<lparr>heap := h1\<rparr>) nextState, Inr nextState)
      else (w\<lparr>heap := h1\<rparr>, Inr nextState))"
  using assms by (auto simp: internalReducer_def split: option.splits)

text \<open>The ways lines 69 to 92 can end: with the stored state, or with the stripped copy
  because nothing is stored or because the stored text could not be unmarshalled.\<close>

lemma initial_state_cases:
  assumes "initial_state P ctx w s = (w2, init)"
  shows "(\<exists>str h1 j. getItem w (target ctx) = Some str
            \<and> JSON_parse P (heap w) str = (h1, Inr j)
            \<and> transform_read (transform ctx) h1 j = (heap w2, Inr init)
            \<and> w2 = w\<lparr>heap := heap w2\<rparr>)
       \<or> (\<exists>hp. heap w2 = hp @ [AList.delete (SymKey defaultStateSourceMarker) (spread hp s)]
            \<and> init = JRef (length hp)
            \<and> (getItem w (target ctx) = None \<and> hp = heap w \<and> w2 = w\<lparr>heap := heap w2\<rparr>
                \<or> (\<exists>str e. getItem w (target ctx) = Some str
                      \<and> (JSON_parse P (heap w) str = (hp, Inl e)
                          \<or> (\<exists>h1 j. JSON_parse P (heap w) str = (h1, Inr j)
                                \<and> transform_read (transform ctx) h1 j = (hp, Inl e)))
                      \<and> w2 = w\<lparr>heap := heap w2,
                                console := console w @ [(unmarshal_message, e)]\<rparr>)))"
  using assms
  by (auto simp: initial_state_def load_stored_def Let_def warn_def alloc_def delete_prop_def
           split: option.splits prod.splits sum.splits if_splits)

section \<open>No persistence during initialization\<close>

text \<open>
  C9. On the initialization call (the marker on the incoming state is truthy) the reducer
  never writes to localStorage: \<^verbatim>\<open>setItem\<close> is not called and the stored items are as they
  were, whatever the child returns and whatever the action and the triggers are. Storage
  is written in the normal branch only: a call that changed the items or called
  \<^verbatim>\<open>setItem\<close> found no truthy marker.
\<close>

theorem init_never_writes:
  "(\<forall>m. get_prop (heap w) s (SymKey defaultStateSourceMarker) = Inr m \<and> truthy m \<longrightarrow>
       localStorage (fst (internalReducer P ctx w s a)) = localStorage w
     \<and> setItemCalls (fst (internalReducer P ctx w s a)) = setItemCalls w)
   \<and> (localStorage (fst (internalReducer P ctx w s a)) \<noteq> localStorage w
        \<or> setItemCalls (fst (internalReducer P ctx w s a)) \<noteq> setItemCalls w \<longrightarrow>
      (\<exists>m. get_prop (heap w) s (SymKey defaultStateSourceMarker) = Inr m \<and> \<not> truthy m))"
  by (auto simp: internalReducer_def Let_def split: sum.splits prod.splits if_splits
           dest: initial_state_frame)

text \<open>
  The first call of \<open>rlswt\<close> with the action \<^verbatim>\<open>TEST\<close>, which is one of its triggers: the
  child returns a new state (address 5) and nothing is stored.
\<close>

theorem init_never_writes_witness:
  "get_prop (heap (started rlswt empty_world)) (marked_state rlswt empty_world)
      (SymKey defaultStateSourceMarker) = Inr (JBool True)
   \<and> triggers rlswt = Some [''TEST'']
   \<and> snd (internalReducer reference_platform rlswt (started rlswt empty_world)
             (marked_state rlswt empty_world) (TEST (JStr ''am i writing''))) = Inr (JRef 5)
   \<and> localStorage (fst (internalReducer reference_platform rlswt (started rlswt empty_world)
             (marked_state rlswt empty_world) (TEST (JStr ''am i writing'')))) = []
   \<and> setItemCalls (fst (internalReducer reference_platform rlswt (started rlswt empty_world)
             (marked_state rlswt empty_world) (TEST (JStr ''am i writing'')))) = []"
proof -
  have m: "get_prop (heap (started rlswt empty_world)) (marked_state rlswt empty_world)
      (SymKey defaultStateSourceMarker) = Inr (JBool True)"
    by code_simp
  have t: "triggers rlswt = Some [''TEST'']"
    by code_simp
  have r: "snd (internalReducer reference_platform rlswt (started rlswt empty_world)
             (marked_state rlswt empty_world) (TEST (JStr ''am i writing''))) = Inr (JRef 5)"
    by code_simp
  have e: "localStorage (started rlswt empty_world) = []
         \<and> setItemCalls (started rlswt empty_world) = []"
    by code_simp
  from init_never_writes [of "started rlswt empty_world" "marked_state rlswt empty_world"
         reference_platform rlswt "TEST (JStr ''am i writing'')"] m e
  have "localStorage (fst (internalReducer reference_platform rlswt (started rlswt empty_world)
             (marked_state rlswt empty_world) (TEST (JStr ''am i writing'')))) = []
   \<and> setItemCalls (fst (internalReducer reference_platform rlswt (started rlswt empty_world)
             (marked_state rlswt empty_world) (TEST (JStr ''am i writing'')))) = []"
    by simp
  with m t r show ?thesis by simp
qed

section \<open>Triggers\<close>

text \<open>
  C2. In the normal branch (no truthy marker; the child returns \<open>nextState\<close>) a write to
  localStorage is attempted if and only if \<open>nextState\<close> is not the very value \<open>s\<close> and the
  triggers are undefined or contain the action's type. An attempt shows as a call of
  \<^verbatim>\<open>setItem\<close> or, when it fails before that, as a warning; when the transform and
  \<^verbatim>\<open>JSON.stringify\<close> succeed the call is \<^verbatim>\<open>setItem(target, JSON.stringify(write(nextState)))\<close>.
  With the triggers set to the empty array no call of the reducer writes.
\<close>

theorem trigger_semantics:
  "(\<forall>m h1 nextState.
       get_prop (heap w) s (SymKey defaultStateSourceMarker) = Inr m \<and> \<not> truthy m
       \<and> reducer (reduxable ctx) (heap w) s a = (h1, Inr nextState) \<longrightarrow>
       ((setItemCalls (fst (internalReducer P ctx w s a)) \<noteq> setItemCalls w
           \<or> console (fst (internalReducer P ctx w s a)) \<noteq> console w)
        = (nextState \<noteq> s
           \<and> (triggers ctx = None \<or> (\<exists>ts. triggers ctx = Some ts \<and> atype a \<in> set ts))))
       \<and> (\<forall>h2 v str. nextState \<noteq> s
              \<and> (triggers ctx = None \<or> (\<exists>ts. triggers ctx = Some ts \<and> atype a \<in> set ts))
              \<and> transform_write (transform ctx) h1 nextState = (h2, Inr v)
              \<and> JSON_stringify P h2 v = Inr str \<longrightarrow>
            setItemCalls (fst (internalReducer P ctx w s a))
              = setItemCalls w @ [(target ctx, to_string str)]))
   \<and> (triggers ctx = Some [] \<longrightarrow>
        setItemCalls (fst (internalReducer P ctx w s a)) = setItemCalls w
        \<and> localStorage (fst (internalReducer P ctx w s a)) = localStorage w)"
proof (intro conjI allI impI)
  fix m h1 nextState
  assume a: "get_prop (heap w) s (SymKey defaultStateSourceMarker) = Inr m \<and> \<not> truthy m
       \<and> reducer (reduxable ctx) (heap w) s a = (h1, Inr nextState)"
  then have eq: "internalReducer P ctx w s a =
     (if nextState \<noteq> s \<and> (triggers ctx = None \<or> (\<exists>ts. triggers ctx = Some ts \<and> atype a \<in> set ts))
      then (save_state P ctx (w\<lparr>heap := h1\<rparr>) nextState, Inr nextState)
      else (w\<lparr>heap := h1\<rparr>, Inr nextState))"
    using normal_branch by blast
  show "(setItemCalls (fst (internalReducer P ctx w s a)) \<noteq> setItemCalls w
           \<or> console (fst (internalReducer P ctx w s a)) \<noteq> console w)
        = (nextState \<noteq> s
           \<and> (triggers ctx = None \<or> (\<exists>ts. triggers ctx = Some ts \<and> atype a \<in> set ts)))"
    using save_state_cases [OF refl, of P ctx "w\<lparr>heap := h1\<rparr>" nextState]
    by (auto simp: eq)
  fix h2 v str
  assume b: "nextState \<noteq> s
              \<and> (triggers ctx = None \<or> (\<exists>ts. triggers ctx = Some ts \<and> atype a \<in> set ts))
              \<and> transform_write (transform ctx) h1 nextState = (h2, Inr v)
              \<and> JSON_stringify P h2 v = Inr str"
  show "setItemCalls (fst (internalReducer P ctx w s a))
              = setItemCalls w @ [(target ctx, to_string str)]"
    using save_state_cases [OF refl, of P ctx "w\<lparr>heap := h1\<rparr>" nextState] b
    by (auto simp: eq)
next
  assume "triggers ctx = Some []"
  then show "setItemCalls (fst (internalReducer P ctx w s a)) = setItemCalls w"
    by (auto simp: internalReducer_def Let_def split: sum.splits prod.splits if_splits
           dest: initial_state_frame)
next
  assume "triggers ctx = Some []"
  then show "localStorage (fst (internalReducer P ctx w s a)) = localStorage w"
    by (auto simp: internalReducer_def Let_def split: sum.splits prod.splits if_splits
           dest: initial_state_frame)
qed

text \<open>
  The test \<^verbatim>\<open>Should write to localStorage on relevant triggers\<close>: on the action \<^verbatim>\<open>TEST\<close>
  the wrapper \<open>rlswt\<close> calls \<^verbatim>\<open>setItem\<close> with the serialised next state, and \<open>rlsnt\<close>, whose
  triggers are empty, does not.
\<close>

theorem trigger_semantics_witness:
  "get_prop (heap plain_state_world) (JRef 1) (SymKey defaultStateSourceMarker) = Inr JUndefined
   \<and> \<not> truthy JUndefined
   \<and> snd (reducer (reduxable rlswt) (heap plain_state_world) (JRef 1)
             (TEST (JStr ''am i writing''))) = Inr (JRef 2)
   \<and> JRef 2 \<noteq> JRef 1
   \<and> triggers rlswt = Some [''TEST''] \<and> atype (TEST (JStr ''am i writing'')) \<in> set [''TEST'']
   \<and> setItemCalls (fst (internalReducer reference_platform rlswt plain_state_world (JRef 1)
                           (TEST (JStr ''am i writing''))))
        = [(''rlswt'', state_json ''am i writing'')]
   \<and> triggers rlsnt = Some []
   \<and> setItemCalls (fst (internalReducer reference_platform rlsnt plain_state_world (JRef 1)
                           (TEST (JStr ''am i writing'')))) = []
   \<and> localStorage (fst (internalReducer reference_platform rlsnt plain_state_world (JRef 1)
                           (TEST (JStr ''am i writing'')))) = []"
proof -
  define h1 where "h1 = heap plain_state_world
                    @ [[(StrKey ''data'', JStr ''am i writing''), (StrKey ''reducer'', JBool True),
                        (StrKey ''updated'', JRef 0)]]"
  have c: "reducer (reduxable rlswt) (heap plain_state_world) (JRef 1)
             (TEST (JStr ''am i writing'')) = (h1, Inr (JRef 2))"
    unfolding h1_def by code_simp
  have m: "get_prop (heap plain_state_world) (JRef 1) (SymKey defaultStateSourceMarker)
             = Inr JUndefined"
    by code_simp
  have t: "triggers rlswt = Some [''TEST'']" and n: "triggers rlsnt = Some []"
    by code_simp+
  have a: "atype (TEST (JStr ''am i writing'')) \<in> set [''TEST'']"
    by code_simp
  have wr: "transform_write (transform rlswt) h1 (JRef 2) = (h1, Inr (JRef 2))"
    by (simp add: rlswt_def new_ReduxLocalStorage_def identity_transform_def)
  have js: "JSON_stringify reference_platform h1 (JRef 2) = Inr (Some (state_json ''am i writing''))"
    unfolding h1_def by code_simp
  have e: "setItemCalls plain_state_world = [] \<and> localStorage plain_state_world = []"
    by code_simp
  from trigger_semantics [of plain_state_world "JRef 1" rlswt "TEST (JStr ''am i writing'')"
         reference_platform] m c t a wr js e
  have 1: "setItemCalls (fst (internalReducer reference_platform rlswt plain_state_world (JRef 1)
                           (TEST (JStr ''am i writing''))))
        = [(''rlswt'', state_json ''am i writing'')]"
    by (simp add: rlswt_def new_ReduxLocalStorage_def)
  from trigger_semantics [of plain_state_world "JRef 1" rlsnt "TEST (JStr ''am i writing'')"
         reference_platform] n e
  have 2: "setItemCalls (fst (internalReducer reference_platform rlsnt plain_state_world (JRef 1)
                           (TEST (JStr ''am i writing'')))) = []
   \<and> localStorage (fst (internalReducer reference_platform rlsnt plain_state_world (JRef 1)
                           (TEST (JStr ''am i writing'')))) = []"
    by simp
  from m c t a n 1 2 show ?thesis by simp
qed


section \<open>Failures while marshalling and unmarshalling\<close>

text \<open>
  C3. In the normal branch, when the write is due and the transform's \<^verbatim>\<open>write\<close>, or
  \<^verbatim>\<open>JSON.stringify\<close>, or \<^verbatim>\<open>setItem\<close> fails (the quota is exceeded), the reducer returns the
  child's \<open>nextState\<close> and no exception, the stored items are untouched, the heap is as
  the transform left it, and exactly one warning with the message
  \<^verbatim>\<open>Could not marshal state to localStorage\<close> is added to the console.
\<close>

theorem marshal_failure_atomicity:
  assumes "get_prop (heap w) s (SymKey defaultStateSourceMarker) = Inr m" and "\<not> truthy m"
    and "reducer (reduxable ctx) (heap w) s a = (h1, Inr nextState)"
    and "nextState \<noteq> s"
    and "triggers ctx = None \<or> (\<exists>ts. triggers ctx = Some ts \<and> atype a \<in> set ts)"
    and "transform_write (transform ctx) h1 nextState = (h2, r)"
    and "(\<exists>e. r = Inl e)
         \<or> (\<exists>v e. r = Inr v \<and> JSON_stringify P h2 v = Inl e)
         \<or> (\<exists>v str. r = Inr v \<and> JSON_stringify P h2 v = Inr str
               \<and> quota w < storage_size (AList.update (target ctx) (to_string str) (localStorage w)))"
  shows "snd (internalReducer P ctx w s a) = Inr nextState
       \<and> heap (fst (internalReducer P ctx w s a)) = h2
       \<and> localStorage (fst (internalReducer P ctx w s a)) = localStorage w
       \<and> (\<exists>e. console (fst (internalReducer P ctx w s a))
                 = console w @ [(''Could not marshal state to localStorage'', e)])"
proof -
  have eq: "internalReducer P ctx w s a = (save_state P ctx (w\<lparr>heap := h1\<rparr>) nextState, Inr nextState)"
    using assms(1-5) normal_branch [of w s m ctx a h1 nextState P] by auto
  show ?thesis
    using save_state_cases [OF refl, of P ctx "w\<lparr>heap := h1\<rparr>" nextState] assms(6,7)
    by (auto simp: eq marshal_message_def)
qed

text \<open>
  The test \<^verbatim>\<open>Should warn when state can not be marshalled\<close>: the action carries a
  circular object, the next state (address 3) holds it, \<^verbatim>\<open>JSON.stringify\<close> throws.
\<close>

theorem marshal_failure_atomicity_witness:
  "get_prop (heap circular_world) (JRef 1) (SymKey defaultStateSourceMarker) = Inr JUndefined
   \<and> \<not> truthy JUndefined
   \<and> snd (reducer (reduxable rlsst) (heap circular_world) (JRef 1) (TEST (JRef 2))) = Inr (JRef 3)
   \<and> JRef 3 \<noteq> JRef 1
   \<and> triggers rlsst = None
   \<and> JSON_stringify reference_platform
        (fst (reducer (reduxable rlsst) (heap circular_world) (JRef 1) (TEST (JRef 2)))) (JRef 3)
        = Inl TypeError
   \<and> snd (internalReducer reference_platform rlsst circular_world (JRef 1) (TEST (JRef 2)))
        = Inr (JRef 3)
   \<and> localStorage (fst (internalReducer reference_platform rlsst circular_world (JRef 1)
                           (TEST (JRef 2)))) = []
   \<and> console (fst (internalReducer reference_platform rlsst circular_world (JRef 1)
                      (TEST (JRef 2))))
        = [(''Could not marshal state to localStorage'', TypeError)]"
proof -
  define h1 where "h1 = heap circular_world
                    @ [[(StrKey ''data'', JRef 2), (StrKey ''reducer'', JBool True),
                        (StrKey ''updated'', JRef 0)]]"
  have c: "reducer (reduxable rlsst) (heap circular_world) (JRef 1) (TEST (JRef 2))
             = (h1, Inr (JRef 3))"
    unfolding h1_def by code_simp
  have m: "get_prop (heap circular_world) (JRef 1) (SymKey defaultStateSourceMarker)
             = Inr JUndefined"
    by code_simp
  have t: "triggers rlsst = None"
    by code_simp
  have wr: "transform_write (transform rlsst) h1 (JRef 3) = (h1, Inr (JRef 3))"
    by (simp add: rlsst_def new_ReduxLocalStorage_def identity_transform_def)
  have js: "JSON_stringify reference_platform h1 (JRef 3) = Inl TypeError"
    unfolding h1_def by code_simp
  have e: "localStorage circular_world = [] \<and> console circular_world = []"
    by code_simp
  have r: "console (fst (internalReducer reference_platform rlsst circular_world (JRef 1)
                      (TEST (JRef 2))))
        = [(''Could not marshal state to localStorage'', TypeError)]"
    by code_simp
  from marshal_failure_atomicity [of circular_world "JRef 1" JUndefined rlsst "TEST (JRef 2)"
         h1 "JRef 3" h1 "Inr (JRef 3)" reference_platform] m c t wr js e r
  show ?thesis by simp
qed

text \<open>
  C4. On the initialization call, when localStorage holds a text under the key and
  \<^verbatim>\<open>JSON.parse\<close> or the transform's \<^verbatim>\<open>read\<close> throws \<open>err\<close> (leaving the heap \<open>hp\<close>), the
  reducer adds exactly one warning with the message
  \<^verbatim>\<open>Could not unmarshal state from localStorage\<close>, sets the child's reducer up with a new
  object that has the properties of the incoming state but the marker, and returns what
  the child's reducer returns: the failure itself raises nothing.
\<close>

theorem unmarshal_failure_fallback:
  assumes "get_prop (heap w) s (SymKey defaultStateSourceMarker) = Inr m" and "truthy m"
    and "getItem w (target ctx) = Some str"
    and "JSON_parse P (heap w) str = (h1, r)"
    and "(\<exists>e. r = Inl e \<and> hp = h1 \<and> err = e)
         \<or> (\<exists>j. r = Inr j \<and> transform_read (transform ctx) h1 j = (hp, Inl err))"
  shows "initial_state P ctx w s =
           (w\<lparr>heap := hp @ [AList.delete (SymKey defaultStateSourceMarker) (spread hp s)],
              console := console w @ [(''Could not unmarshal state from localStorage'', err)]\<rparr>,
            JRef (length hp))
       \<and> internalReducer P ctx w s a =
           (let (h4, res) = reducer (reduxable ctx)
                              (hp @ [AList.delete (SymKey defaultStateSourceMarker) (spread hp s)])
                              (JRef (length hp)) a
            in (w\<lparr>heap := h4,
                   console := console w @ [(''Could not unmarshal state from localStorage'', err)]\<rparr>,
                res))"
proof -
  have i: "initial_state P ctx w s =
           (w\<lparr>heap := hp @ [AList.delete (SymKey defaultStateSourceMarker) (spread hp s)],
              console := console w @ [(''Could not unmarshal state from localStorage'', err)]\<rparr>,
            JRef (length hp))"
    using assms(3-5)
    by (auto simp: initial_state_def load_stored_def Let_def warn_def alloc_def delete_prop_def
                   unmarshal_message_def)
  show ?thesis
    using assms(1,2) by (simp add: i internalReducer_def Let_def split: prod.splits)
qed

text \<open>
  The test \<^verbatim>\<open>Should warn when localStorage can not be unmarshalled\<close>: the key holds the
  truncated text \<^verbatim>\<open>{"broken":"JSON"\<close>; the first call warns once and returns the default
  state as the child's reducer leaves it.
\<close>

theorem unmarshal_failure_fallback_witness:
  "get_prop (heap broken_world) (JRef 2) (SymKey defaultStateSourceMarker) = Inr (JBool True)
   \<and> getItem broken_world (target broken) = Some (''{'' @ quote ''broken'' @ '':'' @ quote ''JSON'')
   \<and> JSON_parse reference_platform (heap broken_world)
        (''{'' @ quote ''broken'' @ '':'' @ quote ''JSON'') = (heap broken_world, Inl SyntaxError)
   \<and> snd (internalReducer reference_platform broken broken_world (JRef 2) INIT) = Inr (JRef 4)
   \<and> obj_at (heap (fst (internalReducer reference_platform broken broken_world (JRef 2) INIT))) 3
        = [(StrKey ''data'', JStr ''''), (StrKey ''reducer'', JBool False),
           (StrKey ''updated'', JRef 0)]
   \<and> obj_at (heap (fst (internalReducer reference_platform broken broken_world (JRef 2) INIT))) 4
        = [(StrKey ''data'', JStr ''''), (StrKey ''reducer'', JBool True),
           (StrKey ''updated'', JRef 0)]
   \<and> console (fst (internalReducer reference_platform broken broken_world (JRef 2) INIT))
        = [(''Could not unmarshal state from localStorage'', SyntaxError)]"
proof -
  have m: "get_prop (heap broken_world) (JRef 2) (SymKey defaultStateSourceMarker)
             = Inr (JBool True)"
    by code_simp
  have g: "getItem broken_world (target broken)
             = Some (''{'' @ quote ''broken'' @ '':'' @ quote ''JSON'')"
    by code_simp
  have p: "JSON_parse reference_platform (heap broken_world)
        (''{'' @ quote ''broken'' @ '':'' @ quote ''JSON'') = (heap broken_world, Inl SyntaxError)"
    by code_simp
  have h: "heap broken_world @ [AList.delete (SymKey defaultStateSourceMarker)
                                  (spread (heap broken_world) (JRef 2))]
           = [[], [(StrKey ''data'', JStr ''''), (StrKey ''reducer'', JBool False),
                   (StrKey ''updated'', JRef 0)],
              [(StrKey ''data'', JStr ''''), (StrKey ''reducer'', JBool False),
               (StrKey ''updated'', JRef 0), (SymKey defaultStateSourceMarker, JBool True)],
              [(StrKey ''data'', JStr ''''), (StrKey ''reducer'', JBool False),
               (StrKey ''updated'', JRef 0)]]"
    by code_simp
  have l: "length (heap broken_world) = 3" and c: "console broken_world = []"
    by code_simp+
  have r: "reducer (reduxable broken)
             [[], [(StrKey ''data'', JStr ''''), (StrKey ''reducer'', JBool False),
                   (StrKey ''updated'', JRef 0)],
              [(StrKey ''data'', JStr ''''), (StrKey ''reducer'', JBool False),
               (StrKey ''updated'', JRef 0), (SymKey defaultStateSourceMarker, JBool True)],
              [(StrKey ''data'', JStr ''''), (StrKey ''reducer'', JBool False),
               (StrKey ''updated'', JRef 0)]] (JRef 3) INIT
           = ([[], [(StrKey ''data'', JStr ''''), (StrKey ''reducer'', JBool False),
                   (StrKey ''updated'', JRef 0)],
              [(StrKey ''data'', JStr ''''), (StrKey ''reducer'', JBool False),
               (StrKey ''updated'', JRef 0), (SymKey defaultStateSourceMarker, JBool True)],
              [(StrKey ''data'', JStr ''''), (StrKey ''reducer'', JBool False),
               (StrKey ''updated'', JRef 0)],
              [(StrKey ''data'', JStr ''''), (StrKey ''reducer'', JBool True),
               (StrKey ''updated'', JRef 0)]], Inr (JRef 4))"
    by code_simp
  from unmarshal_failure_fallback [of broken_world "JRef 2" "JBool True" broken
         "''{'' @ quote ''broken'' @ '':'' @ quote ''JSON''" reference_platform
         "heap broken_world" "Inl SyntaxError" "heap broken_world" SyntaxError INIT] m g p
  have "internalReducer reference_platform broken broken_world (JRef 2) INIT =
           (let (h4, res) = reducer (reduxable broken)
                              (heap broken_world @ [AList.delete (SymKey defaultStateSourceMarker)
                                  (spread (heap broken_world) (JRef 2))])
                              (JRef (length (heap broken_world))) INIT
            in (broken_world\<lparr>heap := h4,
                   console := console broken_world
                     @ [(''Could not unmarshal state from localStorage'', SyntaxError)]\<rparr>,
                res))"
    by simp
  then have "internalReducer reference_platform broken broken_world (JRef 2) INIT =
       (broken_world\<lparr>heap := [[], [(StrKey ''data'', JStr ''''), (StrKey ''reducer'', JBool False),
                   (StrKey ''updated'', JRef 0)],
              [(StrKey ''data'', JStr ''''), (StrKey ''reducer'', JBool False),
               (StrKey ''updated'', JRef 0), (SymKey defaultStateSourceMarker, JBool True)],
              [(StrKey ''data'', JStr ''''), (StrKey ''reducer'', JBool False),
               (StrKey ''updated'', JRef 0)],
              [(StrKey ''data'', JStr ''''), (StrKey ''reducer'', JBool True),
               (StrKey ''updated'', JRef 0)]],
          console := [(''Could not unmarshal state from localStorage'', SyntaxError)]\<rparr>,
        Inr (JRef 4))"
    by (simp add: h l c r)
  with m g p show ?thesis by (simp add: obj_at_def)
qed


section \<open>The initialization call\<close>

text \<open>
  C7. On the initialization call the reducer returns exactly what the child's reducer
  returns for the resolved initialization state and the incoming action: the action is
  processed, not skipped. The initialization state is the state read from localStorage
  (parsed and passed through the transform's \<^verbatim>\<open>read\<close>) or, when nothing is stored or
  unmarshalling fails, the copy of the incoming state without the marker.
\<close>

theorem initialization_processes_action:
  assumes "get_prop (heap w) s (SymKey defaultStateSourceMarker) = Inr m" and "truthy m"
  shows "\<exists>w2 init.
      initial_state P ctx w s = (w2, init)
    \<and> internalReducer P ctx w s a =
        (w2\<lparr>heap := fst (reducer (reduxable ctx) (heap w2) init a)\<rparr>,
         snd (reducer (reduxable ctx) (heap w2) init a))
    \<and> ((\<exists>str h1 j. getItem w (target ctx) = Some str
            \<and> JSON_parse P (heap w) str = (h1, Inr j)
            \<and> transform_read (transform ctx) h1 j = (heap w2, Inr init))
       \<or> (\<exists>hp. heap w2 = hp @ [AList.delete (SymKey defaultStateSourceMarker) (spread hp s)]
            \<and> init = JRef (length hp)
            \<and> (getItem w (target ctx) = None \<and> hp = heap w
                \<or> (\<exists>str e. getItem w (target ctx) = Some str
                      \<and> (JSON_parse P (heap w) str = (hp, Inl e)
                          \<or> (\<exists>h1 j. JSON_parse P (heap w) str = (h1, Inr j)
                                \<and> transform_read (transform ctx) h1 j = (hp, Inl e)))))))"
proof -
  obtain w2 init where i: "initial_state P ctx w s = (w2, init)"
    by (cases "initial_state P ctx w s")
  have r: "internalReducer P ctx w s a =
        (w2\<lparr>heap := fst (reducer (reduxable ctx) (heap w2) init a)\<rparr>,
         snd (reducer (reduxable ctx) (heap w2) init a))"
    using assms by (simp add: i internalReducer_def Let_def split: prod.splits)
  from initial_state_cases [OF i] i r show ?thesis
    by blast
qed

text \<open>
  The test \<^verbatim>\<open>Should read from localStorage on init\<close>, with the action \<^verbatim>\<open>TEST\<close>: the
  stored state (address 4 once parsed) is the initialization state, and the state returned
  (address 5) has the data of the action.
\<close>

theorem initialization_processes_action_witness:
  "get_prop (heap reader_world) (JRef 2) (SymKey defaultStateSourceMarker) = Inr (JBool True)
   \<and> truthy (JBool True)
   \<and> getItem reader_world (target reader) = Some (state_json ''i was already here'')
   \<and> snd (initial_state reference_platform reader reader_world (JRef 2)) = JRef 4
   \<and> obj_at (heap (fst (initial_state reference_platform reader reader_world (JRef 2)))) 4
        = [(StrKey ''data'', JStr ''i was already here''), (StrKey ''reducer'', JBool True),
           (StrKey ''updated'', JRef 3)]
   \<and> snd (internalReducer reference_platform reader reader_world (JRef 2)
             (TEST (JStr ''am i writing''))) = Inr (JRef 5)
   \<and> obj_at (heap (fst (internalReducer reference_platform reader reader_world (JRef 2)
                           (TEST (JStr ''am i writing''))))) 5
        = [(StrKey ''data'', JStr ''am i writing''), (StrKey ''reducer'', JBool True),
           (StrKey ''updated'', JRef 3)]"
proof -
  define H where "H = heap reader_world
      @ [[], [(StrKey ''data'', JStr ''i was already here''), (StrKey ''reducer'', JBool True),
              (StrKey ''updated'', JRef 3)]]"
  have m: "get_prop (heap reader_world) (JRef 2) (SymKey defaultStateSourceMarker)
             = Inr (JBool True)"
    by code_simp
  have g: "getItem reader_world (target reader) = Some (state_json ''i was already here'')"
    by code_simp
  have i: "initial_state reference_platform reader reader_world (JRef 2)
             = (reader_world\<lparr>heap := H\<rparr>, JRef 4)"
    unfolding H_def by code_simp
  have c: "reducer (reduxable reader) H (JRef 4) (TEST (JStr ''am i writing''))
             = (H @ [[(StrKey ''data'', JStr ''am i writing''), (StrKey ''reducer'', JBool True),
                      (StrKey ''updated'', JRef 3)]], Inr (JRef 5))"
    unfolding H_def by code_simp
  have l: "length H = 5"
    unfolding H_def by code_simp
  from initialization_processes_action [of reader_world "JRef 2" "JBool True"
         reference_platform reader "TEST (JStr ''am i writing'')"] m
  obtain w2 init where
    "initial_state reference_platform reader reader_world (JRef 2) = (w2, init)"
    and "internalReducer reference_platform reader reader_world (JRef 2)
           (TEST (JStr ''am i writing'')) =
        (w2\<lparr>heap := fst (reducer (reduxable reader) (heap w2) init (TEST (JStr ''am i writing'')))\<rparr>,
         snd (reducer (reduxable reader) (heap w2) init (TEST (JStr ''am i writing''))))"
    by auto
  with i c have "internalReducer reference_platform reader reader_world (JRef 2)
           (TEST (JStr ''am i writing'')) =
        (reader_world\<lparr>heap := H @ [[(StrKey ''data'', JStr ''am i writing''),
                                      (StrKey ''reducer'', JBool True),
                                      (StrKey ''updated'', JRef 3)]]\<rparr>, Inr (JRef 5))"
    by simp
  moreover have "length (heap reader_world) = 3"
    by code_simp
  ultimately show ?thesis
    using m g i l by (simp add: obj_at_def H_def nth_append)
qed

section \<open>Copies, not mutations\<close>

text \<open>
  C10. The accessor \<^verbatim>\<open>defaultState\<close> runs the child's accessor and adds one object to the
  heap: a shallow copy of the child's default state with the marker set. It changes no
  object the child made, and its result is not the child's default state but a fresh
  reference. The fallback path of the reducer likewise adds one object, the copy without
  the marker: every object of the heap is as it was after the attempt to load, the
  initialization state is a fresh reference, and the incoming state keeps its marker.
\<close>

theorem defaultState_does_not_mutate:
  "(\<forall>h1 d. childDefault (reduxable ctx) h = (h1, d) \<longrightarrow>
        defaultState ctx h =
          (h1 @ [AList.update (SymKey defaultStateSourceMarker) (JBool True) (spread h1 d)],
           JRef (length h1))
      \<and> (\<forall>a < length h1. obj_at (fst (defaultState ctx h)) a = obj_at h1 a)
      \<and> (valid h1 d \<longrightarrow> snd (defaultState ctx h) \<noteq> d)
      \<and> get_prop (fst (defaultState ctx h)) (snd (defaultState ctx h))
            (SymKey defaultStateSourceMarker) = Inr (JBool True))
   \<and> (\<forall>w1 i u w2 init. load_stored P ctx w s = (w1, i, u) \<and> u
          \<and> initial_state P ctx w s = (w2, init) \<longrightarrow>
        heap w2 = heap w1 @ [AList.delete (SymKey defaultStateSourceMarker) (spread (heap w1) s)]
      \<and> init = JRef (length (heap w1))
      \<and> (\<forall>a < length (heap w1). obj_at (heap w2) a = obj_at (heap w1) a)
      \<and> (valid (heap w1) s \<longrightarrow> init \<noteq> s \<and> has_marker (heap w2) s = has_marker (heap w1) s))"
  by (auto simp: defaultState_def alloc_def obj_at_def nth_append valid_def get_prop_def
                 update_conv' initial_state_def delete_prop_def has_marker_def Let_def
           split: prod.splits jsval.splits)

text \<open>
  The wrapper \<open>rlswt\<close> on an empty heap: the child's default state is object 1, the
  marked copy object 2; the first call of the reducer, with nothing stored, adds the
  stripped copy as object 3 and leaves objects 1 and 2 as they were.
\<close>

theorem defaultState_does_not_mutate_witness:
  "childDefault (reduxable rlswt) [] =
      ([[], [(StrKey ''data'', JStr ''''), (StrKey ''reducer'', JBool False),
             (StrKey ''updated'', JRef 0)]], JRef 1)
   \<and> defaultState rlswt [] =
      ([[], [(StrKey ''data'', JStr ''''), (StrKey ''reducer'', JBool False),
             (StrKey ''updated'', JRef 0)],
        [(StrKey ''data'', JStr ''''), (StrKey ''reducer'', JBool False),
         (StrKey ''updated'', JRef 0), (SymKey defaultStateSourceMarker, JBool True)]], JRef 2)
   \<and> load_stored reference_platform rlswt (started rlswt empty_world) (JRef 2)
        = (started rlswt empty_world, JRef 2, True)
   \<and> snd (initial_state reference_platform rlswt (started rlswt empty_world) (JRef 2)) = JRef 3
   \<and> heap (fst (initial_state reference_platform rlswt (started rlswt empty_world) (JRef 2)))
        = [[], [(StrKey ''data'', JStr ''''), (StrKey ''reducer'', JBool False),
                (StrKey ''updated'', JRef 0)],
           [(StrKey ''data'', JStr ''''), (StrKey ''reducer'', JBool False),
            (StrKey ''updated'', JRef 0), (SymKey defaultStateSourceMarker, JBool True)],
           [(StrKey ''data'', JStr ''''), (StrKey ''reducer'', JBool False),
            (StrKey ''updated'', JRef 0)]]"
proof -
  have c: "childDefault (reduxable rlswt) [] =
      ([[], [(StrKey ''data'', JStr ''''), (StrKey ''reducer'', JBool False),
             (StrKey ''updated'', JRef 0)]], JRef 1)"
    by code_simp
  have l: "load_stored reference_platform rlswt (started rlswt empty_world) (JRef 2)
        = (started rlswt empty_world, JRef 2, True)"
    by code_simp
  obtain w2 init where
    i: "initial_state reference_platform rlswt (started rlswt empty_world) (JRef 2) = (w2, init)"
    by (cases "initial_state reference_platform rlswt (started rlswt empty_world) (JRef 2)")
  note inst = defaultState_does_not_mutate [of rlswt "[]" reference_platform
         "started rlswt empty_world" "JRef 2"]
  from inst [THEN conjunct1, rule_format, OF c]
  have d: "defaultState rlswt [] =
          ([[], [(StrKey ''data'', JStr ''''), (StrKey ''reducer'', JBool False),
             (StrKey ''updated'', JRef 0)]]
            @ [AList.update (SymKey defaultStateSourceMarker) (JBool True)
                 (spread [[], [(StrKey ''data'', JStr ''''), (StrKey ''reducer'', JBool False),
                               (StrKey ''updated'', JRef 0)]] (JRef 1))],
           JRef (length [[], [(StrKey ''data'', JStr ''''), (StrKey ''reducer'', JBool False),
             (StrKey ''updated'', JRef 0)]]))"
    by simp
  from inst [THEN conjunct2, rule_format, of "started rlswt empty_world" "JRef 2" True w2 init]
    l i
  have f: "heap w2 = heap (started rlswt empty_world)
              @ [AList.delete (SymKey defaultStateSourceMarker)
                   (spread (heap (started rlswt empty_world)) (JRef 2))]"
           "init = JRef (length (heap (started rlswt empty_world)))"
    by simp_all
  have e: "[AList.update (SymKey defaultStateSourceMarker) (JBool True)
                 (spread [[], [(StrKey ''data'', JStr ''''), (StrKey ''reducer'', JBool False),
                               (StrKey ''updated'', JRef 0)]] (JRef 1))]
           = [[(StrKey ''data'', JStr ''''), (StrKey ''reducer'', JBool False),
               (StrKey ''updated'', JRef 0), (SymKey defaultStateSourceMarker, JBool True)]]"
    by code_simp
  have g: "heap (started rlswt empty_world)
              @ [AList.delete (SymKey defaultStateSourceMarker)
                   (spread (heap (started rlswt empty_world)) (JRef 2))]
         = [[], [(StrKey ''data'', JStr ''''), (StrKey ''reducer'', JBool False),
                (StrKey ''updated'', JRef 0)],
           [(StrKey ''data'', JStr ''''), (StrKey ''reducer'', JBool False),
            (StrKey ''updated'', JRef 0), (SymKey defaultStateSourceMarker, JBool True)],
           [(StrKey ''data'', JStr ''''), (StrKey ''reducer'', JBool False),
            (StrKey ''updated'', JRef 0)]]"
    and k: "length (heap (started rlswt empty_world)) = 3"
    by code_simp+
  from c l d e f g k i show ?thesis
    by simp
qed

section \<open>Marker hygiene\<close>























section \<open>The same state for a caller\<close>

lemma same_state_refl: "same_state h v h v"
  by (simp add: same_state_def)

lemma same_state_sym: "same_state h v h' v' \<Longrightarrow> same_state h' v' h v"
  by (simp add: same_state_def)

lemma same_state_trans:
  "same_state h v h' v' \<Longrightarrow> same_state h' v' h'' v'' \<Longrightarrow> same_state h v h'' v''"
  by (simp add: same_state_def)

lemma same_state_prim:
  assumes "same_state h v h' v'" and "\<forall>a. v \<noteq> JRef a"
  shows "v' = v"
proof -
  from assms(1) have "snapshot 0 h v = snapshot 0 h' v'"
    by (simp add: same_state_def)
  with assms(2) show ?thesis
    by (cases v; cases v') auto
qed

lemma same_state_ref_ref:
  assumes "same_state h (JRef a) h' v'"
  shows "\<exists>a'. v' = JRef a'"
proof -
  from assms have "snapshot 0 h (JRef a) = snapshot 0 h' v'"
    by (simp add: same_state_def)
  then show ?thesis
    by (cases v') auto
qed

lemma same_state_truthy:
  assumes "same_state h v h' v'"
  shows "truthy v = truthy v'"
proof (cases "\<exists>a. v = JRef a")
  case True
  then obtain a where a: "v = JRef a" by blast
  with assms same_state_ref_ref obtain a' where "v' = JRef a'" by blast
  with a show ?thesis by simp
next
  case False
  with assms same_state_prim have "v' = v" by blast
  then show ?thesis by simp
qed

lemma same_state_ref:
  "same_state h (JRef a) h' (JRef a') = same_obj h (obj_at h a) h' (obj_at h' a')"
proof
  assume s: "same_state h (JRef a) h' (JRef a')"
  then have eq: "map (\<lambda>(k, x). (k, snapshot n h x)) (obj_at h a)
               = map (\<lambda>(k, x). (k, snapshot n h' x)) (obj_at h' a')" for n
    using s [unfolded same_state_def, rule_format, of "Suc n"] by simp
  from arg_cong [OF eq [of 0], of length]
  have len: "length (obj_at h a) = length (obj_at h' a')"
    by simp
  have "fst (obj_at h a ! i) = fst (obj_at h' a' ! i)
        \<and> same_state h (snd (obj_at h a ! i)) h' (snd (obj_at h' a' ! i))"
    if i: "i < length (obj_at h a)" for i
  proof -
    obtain k x where p: "obj_at h a ! i = (k, x)" by (cases "obj_at h a ! i")
    obtain k' x' where p': "obj_at h' a' ! i = (k', x')" by (cases "obj_at h' a' ! i")
    have "(k, snapshot n h x) = (k', snapshot n h' x')" for n
      using arg_cong [OF eq [of n], of "\<lambda>xs. xs ! i"] i len p p' by simp
    then show ?thesis
      by (simp add: same_state_def p p')
  qed
  with len show "same_obj h (obj_at h a) h' (obj_at h' a')"
    by (simp add: same_obj_def list_all2_conv_all_nth case_prod_unfold)
next
  assume o: "same_obj h (obj_at h a) h' (obj_at h' a')"
  have "map (\<lambda>(k, x). (k, snapshot n h x)) (obj_at h a)
               = map (\<lambda>(k, x). (k, snapshot n h' x)) (obj_at h' a')" for n
    using o unfolding same_obj_def
    by (induction rule: list_all2_induct) (auto simp: same_state_def)
  then show "same_state h (JRef a) h' (JRef a')"
    unfolding same_state_def
  proof (intro allI)
    fix n
    assume m: "\<And>n. map (\<lambda>(k, x). (k, snapshot n h x)) (obj_at h a)
               = map (\<lambda>(k, x). (k, snapshot n h' x)) (obj_at h' a')"
    show "snapshot n h (JRef a) = snapshot n h' (JRef a')"
      by (cases n) (simp_all add: m)
  qed
qed

lemma valid_append: "valid h v \<Longrightarrow> valid (h @ ex) v"
  by (auto simp: valid_def split: jsval.splits)

lemma wf_obj_at: "wf_heap h \<Longrightarrow> (k, x) \<in> set (obj_at h a) \<Longrightarrow> valid h x"
  by (auto simp: wf_heap_def obj_at_def list_all_iff split: if_splits)

lemma wf_heap_alloc:
  assumes "wf_heap h" and "\<forall>(k, x) \<in> set ob. valid h x"
  shows "wf_heap (h @ [ob])"
proof -
  have "valid (h @ [ob]) x" if "valid h x" for x
    using that by (rule valid_append)
  with assms show ?thesis
    unfolding wf_heap_def list_all_iff by (simp add: Ball_def)
qed

lemma snapshot_append:
  "wf_heap h \<Longrightarrow> valid h v \<Longrightarrow> snapshot n (h @ ex) v = snapshot n h v"
proof (induction n arbitrary: v)
  case 0
  then show ?case by simp
next
  case (Suc n)
  show ?case
  proof (cases v)
    case (JRef a)
    with Suc.prems have a: "a < length h" by (simp add: valid_def)
    then have o: "obj_at (h @ ex) a = obj_at h a"
      by (simp add: obj_at_def nth_append)
    have "snapshot n (h @ ex) x = snapshot n h x" if "(k, x) \<in> set (obj_at h a)" for k x
      using Suc.IH [OF Suc.prems(1) wf_obj_at [OF Suc.prems(1) that]] .
    then have "map (\<lambda>(k, x). (k, snapshot n (h @ ex) x)) (obj_at h a)
        = map (\<lambda>(k, x). (k, snapshot n h x)) (obj_at h a)"
      by (intro map_cong refl) (simp add: case_prod_unfold, metis prod.collapse)
    with JRef o show ?thesis by simp
  qed simp_all
qed

lemma same_state_append:
  "wf_heap h \<Longrightarrow> valid h v \<Longrightarrow> same_state (h @ ex) v h v"
  by (simp add: same_state_def snapshot_append)

lemma set_update_subset: "set (AList.update k v ob) \<subseteq> insert (k, v) (set ob)"
  by (induction ob) auto

lemma same_obj_update:
  assumes "same_obj h ob h' ob'" and "same_state h x h' x'"
  shows "same_obj h (AList.update k x ob) h' (AList.update k x' ob')"
  using assms unfolding same_obj_def
  by (induction rule: list_all2_induct) auto

lemma same_obj_map_of:
  assumes "same_obj h ob h' ob'"
  shows "rel_option (\<lambda>x x'. same_state h x h' x') (map_of ob k) (map_of ob' k)"
  using assms unfolding same_obj_def
  by (induction rule: list_all2_induct) auto

lemma same_obj_append:
  assumes "same_obj h ob h' ob'" and "wf_heap h" and "wf_heap h'"
    and "\<forall>(k, x) \<in> set ob. valid h x" and "\<forall>(k, x) \<in> set ob'. valid h' x"
  shows "same_obj (h @ ex) ob (h' @ ex') ob'"
proof -
  have extend: "same_state (h @ ex) x (h' @ ex') x'"
    if "same_state h x h' x'" and "valid h x" and "valid h' x'" for x x'
  proof -
    have a: "same_state (h @ ex) x h x"
      using assms(2) that(2) by (rule same_state_append)
    have b: "same_state h' x' (h' @ ex') x'"
      by (rule same_state_sym [OF same_state_append [OF assms(3) that(3)]])
    show ?thesis
      by (rule same_state_trans [OF same_state_trans [OF a that(1)] b])
  qed
  from assms(1,4,5) show ?thesis
    unfolding same_obj_def
  proof (induction rule: list_all2_induct)
    case Nil
    then show ?case by simp
  next
    case (Cons x xs y ys)
    obtain k v where x: "x = (k, v)" by (cases x)
    obtain k' v' where y: "y = (k', v')" by (cases y)
    from Cons.hyps(1) x y have kv: "k = k'" "same_state h v h' v'" by auto
    from Cons.prems x y have "valid h v" "valid h' v'" by auto
    with kv have "same_state (h @ ex) v (h' @ ex') v'" by (intro extend)
    moreover from Cons.prems
    have "\<forall>(k, x) \<in> set xs. valid h x" "\<forall>(k, x) \<in> set ys. valid h' x" by auto
    ultimately show ?case
      using Cons.IH kv x y by simp
  qed
qed

lemma same_state_alloc:
  assumes "same_obj h ob h' ob'" and "wf_heap h" and "wf_heap h'"
    and "\<forall>(k, x) \<in> set ob. valid h x" and "\<forall>(k, x) \<in> set ob'. valid h' x"
  shows "same_state (h @ [ob]) (JRef (length h)) (h' @ [ob']) (JRef (length h'))"
  using same_obj_append [OF assms, of "[ob]" "[ob']"]
  by (simp add: same_state_ref obj_at_def)

lemma same_state_primitive:
  assumes "\<forall>a. p \<noteq> JRef a"
  shows "same_state h p h' p"
proof -
  have "snapshot n h p = snapshot n h' p" for n
    using assms by (cases n; cases p) auto
  then show ?thesis by (simp add: same_state_def)
qed

lemma snapshot_flat:
  assumes "\<forall>(k, x) \<in> set (obj_at h a). \<forall>b. x \<noteq> JRef b" and "obj_at h' a' = obj_at h a"
  shows "same_state h (JRef a) h' (JRef a')"
proof -
  have "same_state h x h' x" if "(k, x) \<in> set (obj_at h a)" for k x
    using assms(1) that by (intro same_state_primitive) auto
  then have "same_obj h (obj_at h a) h' (obj_at h a)"
    by (simp add: same_obj_def list_all2_same case_prod_unfold) (metis prod.collapse)
  with assms(2) show ?thesis
    by (simp add: same_state_ref)
qed

section \<open>Heaps that grow\<close>

lemma extends_heap_iff: "extends_heap h g = (\<exists>ex. g = h @ ex)"
proof
  assume "extends_heap h g"
  then have "g = h @ drop (length h) g"
    by (metis append_take_drop_id extends_heap_def)
  then show "\<exists>ex. g = h @ ex" ..
next
  assume "\<exists>ex. g = h @ ex"
  then show "extends_heap h g"
    by (auto simp: extends_heap_def)
qed

lemma extends_heap_refl: "extends_heap h h"
  by (simp add: extends_heap_def)

lemma extends_heap_append: "extends_heap h (h @ ex)"
  by (simp add: extends_heap_def)

lemma extends_heap_trans: "extends_heap h g \<Longrightarrow> extends_heap g k \<Longrightarrow> extends_heap h k"
  by (auto simp: extends_heap_iff)

lemma valid_extends: "valid h v \<Longrightarrow> extends_heap h g \<Longrightarrow> valid g v"
  by (auto simp: extends_heap_iff valid_append)

lemma same_state_extends:
  "wf_heap h \<Longrightarrow> valid h v \<Longrightarrow> extends_heap h g \<Longrightarrow> same_state g v h v"
  by (auto simp: extends_heap_iff same_state_append)

lemma later_state_grow:
  assumes "later_state h0 h v" and "extends_heap h g" and "wf_heap g"
  shows "later_state h0 g v" and "same_state g v h v"
proof -
  from assms show "later_state h0 g v"
    by (auto simp: later_state_def intro: extends_heap_trans valid_extends)
  from assms show "same_state g v h v"
    by (auto simp: later_state_def intro: same_state_extends)
qed

lemma later_state_alloc:
  assumes "extends_heap h0 h" and "wf_heap h" and "\<forall>(k, x) \<in> set ob. valid h x"
  shows "later_state h0 (h @ [ob]) (JRef (length h))"
  using assms wf_heap_alloc [OF assms(2,3)]
  by (auto simp: later_state_def valid_def extends_heap_iff)

lemma later_state_primitive:
  assumes "extends_heap h0 h" and "wf_heap h" and "\<forall>a. p \<noteq> JRef a"
  shows "later_state h0 h p"
  using assms by (cases p) (auto simp: later_state_def valid_def)

lemma later_state_base:
  assumes "wf_heap h0" and "valid h0 p" and "extends_heap h0 h" and "wf_heap h"
    and "extends_heap h0 h'" and "wf_heap h'"
  shows "later_state h0 h p" and "later_state h0 h' p" and "same_state h p h' p"
proof -
  from assms show "later_state h0 h p" and "later_state h0 h' p"
    by (auto simp: later_state_def intro: valid_extends)
  have "same_state h p h0 p"
    using assms(1,2,3) by (rule same_state_extends)
  moreover have "same_state h0 p h' p"
    by (rule same_state_sym [OF same_state_extends [OF assms(1,2,5)]])
  ultimately show "same_state h p h' p"
    by (rule same_state_trans)
qed

section \<open>Copies of the same state\<close>

lemma string_entries_primitive:
  "(k, x) \<in> set (string_entries i s) \<Longrightarrow> \<exists>c. x = JStr c"
  by (induction s arbitrary: i) auto

lemma same_obj_primitives:
  assumes "\<forall>(k, x) \<in> set ob. \<forall>a. x \<noteq> JRef a"
  shows "same_obj h ob h' ob"
proof -
  have "same_state h x h' x" if "(k, x) \<in> set ob" for k x
    using assms that by (intro same_state_primitive) auto
  then show ?thesis
    by (simp add: same_obj_def list_all2_same case_prod_unfold) (metis prod.collapse)
qed

lemma spread_valid:
  assumes "wf_heap h" and "valid h v"
  shows "\<forall>(k, x) \<in> set (spread h v). valid h x"
proof (cases v)
  case (JRef a)
  then show ?thesis
    using wf_obj_at [OF assms(1)] by (auto simp: spread_def)
next
  case (JStr s)
  then show ?thesis
    by (auto simp: spread_def valid_def dest: string_entries_primitive)
qed (simp_all add: spread_def)

lemma spread_same:
  assumes "same_state h v h' v'"
  shows "same_obj h (spread h v) h' (spread h' v')"
proof (cases "\<exists>a. v = JRef a")
  case True
  then obtain a where a: "v = JRef a" by blast
  with assms same_state_ref_ref obtain a' where a': "v' = JRef a'" by blast
  from assms a a' show ?thesis
    by (simp add: same_state_ref spread_def)
next
  case False
  with assms same_state_prim have e: "v' = v" by blast
  have s: "spread h' v = spread h v"
    using False by (cases v) (simp_all add: spread_def)
  have "\<forall>(k, x) \<in> set (spread h v). \<forall>a. x \<noteq> JRef a"
    using False by (cases v) (auto simp: spread_def dest: string_entries_primitive)
  then have "same_obj h (spread h v) h' (spread h v)"
    by (rule same_obj_primitives)
  with e s show ?thesis by simp
qed

lemma get_prop_same:
  assumes "same_state h v h' v'"
  shows "(\<exists>e. get_prop h v k = Inl e \<and> get_prop h' v' k = Inl e)
       \<or> (\<exists>x x'. get_prop h v k = Inr x \<and> get_prop h' v' k = Inr x' \<and> same_state h x h' x')"
proof (cases "\<exists>a. v = JRef a")
  case True
  then obtain a where a: "v = JRef a" by blast
  with assms same_state_ref_ref obtain a' where a': "v' = JRef a'" by blast
  from assms a a' have "same_obj h (obj_at h a) h' (obj_at h' a')"
    by (simp add: same_state_ref)
  from same_obj_map_of [OF this, of k]
  have "same_state h (case map_of (obj_at h a) k of None \<Rightarrow> JUndefined | Some x \<Rightarrow> x)
                   h' (case map_of (obj_at h' a') k of None \<Rightarrow> JUndefined | Some x \<Rightarrow> x)"
    by (cases "map_of (obj_at h a) k"; cases "map_of (obj_at h' a') k")
       (auto simp: same_state_primitive)
  with a a' show ?thesis
    by (simp add: get_prop_def)
next
  case False
  with assms same_state_prim have e: "v' = v" by blast
  from False show ?thesis
    unfolding e by (cases v) (auto simp: get_prop_def same_state_primitive)
qed

lemma passable_same:
  assumes "same_state h v h' v'"
  shows "passable h v = passable h' v'"
  using get_prop_same [OF assms, of "SymKey defaultStateSourceMarker"]
  by (auto simp: passable_def dest: same_state_truthy)

text \<open>Two copies of the same state, with one property set to the same value in both.\<close>

lemma copy_update_same:
  fixes k :: propkey
  assumes l: "later_state h0 h v" and l': "later_state h0 h' v'" and s: "same_state h v h' v'"
    and x: "valid h x" and x': "valid h' x'" and sx: "same_state h x h' x'"
  defines "ob \<equiv> AList.update k x (spread h v)"
  defines "ob' \<equiv> AList.update k x' (spread h' v')"
  shows "later_state h0 (h @ [ob]) (JRef (length h))
       \<and> later_state h0 (h' @ [ob']) (JRef (length h'))
       \<and> same_state (h @ [ob]) (JRef (length h)) (h' @ [ob']) (JRef (length h'))"
proof -
  from l have e: "extends_heap h0 h" and wf: "wf_heap h" and vv: "valid h v"
    by (simp_all add: later_state_def)
  from l' have e': "extends_heap h0 h'" and wf': "wf_heap h'" and vv': "valid h' v'"
    by (simp_all add: later_state_def)
  have v: "\<forall>(k, y) \<in> set ob. valid h y"
    using spread_valid [OF wf vv] x set_update_subset [of k x "spread h v"]
    by (auto simp: ob_def)
  have v': "\<forall>(k, y) \<in> set ob'. valid h' y"
    using spread_valid [OF wf' vv'] x' set_update_subset [of k x' "spread h' v'"]
    by (auto simp: ob'_def)
  have so: "same_obj h ob h' ob'"
    unfolding ob_def ob'_def
    using spread_same [OF s] sx by (rule same_obj_update)
  show ?thesis
    using later_state_alloc [OF e wf v] later_state_alloc [OF e' wf' v']
      same_state_alloc [OF so wf wf' v v']
    by simp
qed

section \<open>The fixture is pure\<close>

lemma Test_defaultState_later:
  assumes "extends_heap h0 h" and "wf_heap h" and "Test_defaultState h = (h1, d)"
  shows "later_state h0 h1 d" and "\<exists>a. d = JRef a" and "\<not> has_marker h1 d"
    and "obj_at h1 (length h) = []"
    and "h1 = h @ [[], [(StrKey ''data'', JStr ''''), (StrKey ''reducer'', JBool False),
                        (StrKey ''updated'', JRef (length h))]]"
    and "d = JRef (Suc (length h))"
proof -
  from assms(3) show h1: "h1 = h @ [[], [(StrKey ''data'', JStr ''''), (StrKey ''reducer'', JBool False),
                        (StrKey ''updated'', JRef (length h))]]"
    and d: "d = JRef (Suc (length h))"
    by (auto simp: Test_defaultState_def alloc_def)
  have w: "wf_heap (h @ [[]])"
    using assms(2) by (rule wf_heap_alloc) simp
  have e: "extends_heap h0 (h @ [[]])"
    using assms(1) extends_heap_append by (rule extends_heap_trans)
  have "later_state h0 ((h @ [[]]) @ [[(StrKey ''data'', JStr ''''), (StrKey ''reducer'', JBool False),
                   (StrKey ''updated'', JRef (length h))]]) (JRef (length (h @ [[]])))"
    using e w by (rule later_state_alloc) (simp add: valid_def)
  with h1 d show "later_state h0 h1 d" by simp
  from d show "\<exists>a. d = JRef a" by simp
  from h1 d show "\<not> has_marker h1 d"
    by (simp add: has_marker_def obj_at_def nth_append)
  from h1 show "obj_at h1 (length h) = []"
    by (simp add: obj_at_def nth_append)
qed

lemma Test_defaultState_same:
  assumes "Test_defaultState h = (h1, d)" and "Test_defaultState h' = (h1', d')"
  shows "same_state h1 d h1' d'"
proof -
  from assms(1) have h1: "h1 = h @ [[], [(StrKey ''data'', JStr ''''), (StrKey ''reducer'', JBool False),
                        (StrKey ''updated'', JRef (length h))]]" and d: "d = JRef (Suc (length h))"
    by (auto simp: Test_defaultState_def alloc_def)
  from assms(2) have h1': "h1' = h' @ [[], [(StrKey ''data'', JStr ''''), (StrKey ''reducer'', JBool False),
                        (StrKey ''updated'', JRef (length h'))]]" and d': "d' = JRef (Suc (length h'))"
    by (auto simp: Test_defaultState_def alloc_def)
  have u: "same_state h1 (JRef (length h)) h1' (JRef (length h'))"
    by (simp add: same_state_ref same_obj_def h1 h1' obj_at_def nth_append)
  have "same_obj h1 (obj_at h1 (Suc (length h))) h1' (obj_at h1' (Suc (length h')))"
    using u by (simp add: same_obj_def h1 h1' obj_at_def nth_append same_state_primitive)
  then show ?thesis
    by (simp add: same_state_ref d d')
qed

lemma Test_reducer_pure:
  assumes wf0: "wf_heap h0" and p: "valid h0 (payload a)"
    and l: "later_state h0 h v" and l': "later_state h0 h' v'" and s: "same_state h v h' v'"
  shows "agree h0 (Test_reducer h v a) (Test_reducer h' v' a)"
proof -
  define c where "c = (if v = JUndefined then Test_defaultState h else (h, v))"
  define c' where "c' = (if v' = JUndefined then Test_defaultState h' else (h', v'))"
  have u: "(v = JUndefined) = (v' = JUndefined)"
    using s same_state_prim [OF s] same_state_prim [OF same_state_sym [OF s]] by auto
  have l0: "later_state h0 (fst c) (snd c)"
  proof (cases "v = JUndefined")
    case True
    with l Test_defaultState_later(1) [of h0 h "fst (Test_defaultState h)" "snd (Test_defaultState h)"]
    show ?thesis by (simp add: c_def later_state_def)
  next
    case False
    with l show ?thesis by (simp add: c_def)
  qed
  have l0': "later_state h0 (fst c') (snd c')"
  proof (cases "v' = JUndefined")
    case True
    with l' Test_defaultState_later(1) [of h0 h' "fst (Test_defaultState h')" "snd (Test_defaultState h')"]
    show ?thesis by (simp add: c'_def later_state_def)
  next
    case False
    with l' show ?thesis by (simp add: c'_def)
  qed
  have s0: "same_state (fst c) (snd c) (fst c') (snd c')"
  proof (cases "v = JUndefined")
    case True
    with u Test_defaultState_same [of h "fst (Test_defaultState h)" "snd (Test_defaultState h)"
                                     h' "fst (Test_defaultState h')" "snd (Test_defaultState h')"]
    show ?thesis by (simp add: c_def c'_def)
  next
    case False
    with u s show ?thesis by (simp add: c_def c'_def)
  qed
  from l0 have wfc: "wf_heap (fst c)" and ec: "extends_heap h0 (fst c)"
    by (simp_all add: later_state_def)
  from l0' have wfc': "wf_heap (fst c')" and ec': "extends_heap h0 (fst c')"
    by (simp_all add: later_state_def)
  from get_prop_same [OF s0, of "StrKey ''reducer''"]
  show ?thesis
  proof (elim disjE exE conjE)
    fix e
    assume "get_prop (fst c) (snd c) (StrKey ''reducer'') = Inl e"
      and "get_prop (fst c') (snd c') (StrKey ''reducer'') = Inl e"
    then show ?thesis
      by (simp add: Test_reducer_def agree_def c_def [symmetric] c'_def [symmetric]
                    case_prod_unfold)
  next
    fix x x'
    assume x: "get_prop (fst c) (snd c) (StrKey ''reducer'') = Inr x"
      and x': "get_prop (fst c') (snd c') (StrKey ''reducer'') = Inr x'"
      and sx: "same_state (fst c) x (fst c') x'"
    from sx have t: "truthy x' = truthy x"
      by (simp add: same_state_truthy)
    define ob where "ob = AList.update (StrKey ''reducer'') (JBool True) (spread (fst c) (snd c))"
    define ob' where "ob' = AList.update (StrKey ''reducer'') (JBool True) (spread (fst c') (snd c'))"
    define h1 s1 where "h1 = (if truthy x then fst c else fst c @ [ob])"
      and "s1 = (if truthy x then snd c else JRef (length (fst c)))"
    define h1' s1' where "h1' = (if truthy x then fst c' else fst c' @ [ob'])"
      and "s1' = (if truthy x then snd c' else JRef (length (fst c')))"
    have step1: "later_state h0 h1 s1 \<and> later_state h0 h1' s1' \<and> same_state h1 s1 h1' s1'"
      using l0 l0' s0
        copy_update_same [OF l0 l0' s0, of "JBool True" "JBool True" "StrKey ''reducer''"]
      by (simp add: h1_def s1_def h1'_def s1'_def ob_def ob'_def valid_def same_state_primitive)
    then have l1: "later_state h0 h1 s1" and l1': "later_state h0 h1' s1'"
      and ss1: "same_state h1 s1 h1' s1'"
      by simp_all
    from l1 have e1: "extends_heap h0 h1" and w1: "wf_heap h1" by (simp_all add: later_state_def)
    from l1' have e1': "extends_heap h0 h1'" and w1': "wf_heap h1'" by (simp_all add: later_state_def)
    note pb = later_state_base [OF wf0 p e1 w1 e1' w1']
    from pb(1) have vp: "valid h1 (payload a)" by (simp add: later_state_def)
    from pb(2) have vp': "valid h1' (payload a)" by (simp add: later_state_def)
    have r: "Test_reducer h v a =
        (if atype a = ''TEST''
         then (h1 @ [AList.update (StrKey ''data'') (payload a) (spread h1 s1)], Inr (JRef (length h1)))
         else (h1, Inr s1))"
      using x
      by (simp add: Test_reducer_def alloc_def h1_def s1_def ob_def Let_def c_def [symmetric]
                    case_prod_unfold)
    have r': "Test_reducer h' v' a =
        (if atype a = ''TEST''
         then (h1' @ [AList.update (StrKey ''data'') (payload a) (spread h1' s1')], Inr (JRef (length h1')))
         else (h1', Inr s1'))"
      using x' t
      by (simp add: Test_reducer_def alloc_def h1'_def s1'_def ob'_def Let_def c'_def [symmetric]
                    case_prod_unfold)
    show ?thesis
      using copy_update_same [OF l1 l1' ss1 vp vp' pb(3), of "StrKey ''data''"] step1
      by (simp add: r r' agree_def)
  qed
qed

lemma Test_pure_child:
  assumes "wf_heap h0"
  shows "pure_child Test h0 {a. valid h0 (payload a)}"
  unfolding pure_child_def
  using Test_reducer_pure [OF assms]
  by (simp add: Test_def)

lemma Holder_reducer_pure:
  assumes wf0: "wf_heap h0" and p: "valid h0 (payload a)"
    and prim: "\<forall>(k, x) \<in> set initial. \<forall>b. x \<noteq> JRef b"
    and l: "later_state h0 h v" and l': "later_state h0 h' v'" and s: "same_state h v h' v'"
  shows "agree h0 (Holder_reducer initial h v a) (Holder_reducer initial h' v' a)"
proof -
  define c where "c = (if v = JUndefined then (h @ [initial], JRef (length h)) else (h, v))"
  define c' where "c' = (if v' = JUndefined then (h' @ [initial], JRef (length h')) else (h', v'))"
  have u: "(v = JUndefined) = (v' = JUndefined)"
    using s same_state_prim [OF s] same_state_prim [OF same_state_sym [OF s]] by auto
  from l have e: "extends_heap h0 h" and w: "wf_heap h" by (simp_all add: later_state_def)
  from l' have e': "extends_heap h0 h'" and w': "wf_heap h'" by (simp_all add: later_state_def)
  have vi: "\<forall>(k, x) \<in> set initial. valid g x" for g
    using prim by (auto simp: valid_def split: jsval.splits)
  have l0: "later_state h0 (fst c) (snd c)"
    using l later_state_alloc [OF e w vi] by (simp add: c_def)
  have l0': "later_state h0 (fst c') (snd c')"
    using l' later_state_alloc [OF e' w' vi] by (simp add: c'_def)
  have s0: "same_state (fst c) (snd c) (fst c') (snd c')"
    using s u same_state_alloc [OF same_obj_primitives [OF prim] w w' vi vi]
    by (simp add: c_def c'_def)
  from l0 have e1: "extends_heap h0 (fst c)" and w1: "wf_heap (fst c)"
    by (simp_all add: later_state_def)
  from l0' have e1': "extends_heap h0 (fst c')" and w1': "wf_heap (fst c')"
    by (simp_all add: later_state_def)
  note pb = later_state_base [OF wf0 p e1 w1 e1' w1']
  have un: "later_state h0 (fst c) JUndefined" "later_state h0 (fst c') JUndefined"
    using e1 w1 e1' w1' by (simp_all add: later_state_primitive)
  have r: "Holder_reducer initial h v a =
      (fst c, Inr (if atype a = ''SET'' then payload a
                   else if atype a = ''CLEAR'' then JUndefined else snd c))"
    by (simp add: Holder_reducer_def c_def alloc_def)
  have r': "Holder_reducer initial h' v' a =
      (fst c', Inr (if atype a = ''SET'' then payload a
                    else if atype a = ''CLEAR'' then JUndefined else snd c'))"
    by (simp add: Holder_reducer_def c'_def alloc_def)
  show ?thesis
    using pb un l0 l0' s0
    by (simp add: r r' agree_def same_state_primitive)
qed

lemma Holder_pure_child:
  assumes "wf_heap h0" and "\<forall>(k, x) \<in> set initial. \<forall>b. x \<noteq> JRef b"
  shows "pure_child (Holder initial) h0 {a. valid h0 (payload a)}"
  unfolding pure_child_def
  using Holder_reducer_pure [OF assms(1) _ assms(2)]
  by (simp add: Holder_def)

lemma pure_child_mono: "pure_child r h0 A \<Longrightarrow> B \<subseteq> A \<Longrightarrow> pure_child r h0 B"
  unfolding pure_child_def by blast

lemma identity_pure_write: "pure_write identity_transform"
  by (simp add: pure_write_def identity_transform_def extends_heap_refl)

section \<open>Passthrough equivalence\<close>

text \<open>In the normal branch the state returned is the child's; storing it leaves it as it
  is when the transform's \<^verbatim>\<open>write\<close> is pure.\<close>

lemma normal_step_heap:
  assumes pw: "pure_write (transform ctx)"
    and m: "get_prop (heap w) t (SymKey defaultStateSourceMarker) = Inr m" and nt: "\<not> truthy m"
    and r: "reducer (reduxable ctx) (heap w) t a = (h1, Inr t')"
    and wf: "wf_heap h1" and v: "valid h1 t'"
  shows "\<exists>w'. internalReducer P ctx w t a = (w', Inr t')
            \<and> extends_heap h1 (heap w') \<and> wf_heap (heap w')"
proof -
  note nb = normal_branch [OF m nt r, of P]
  obtain w' where w': "internalReducer P ctx w t a = (w', Inr t')"
    using nb by (auto split: if_splits)
  have "extends_heap h1 (heap w') \<and> wf_heap (heap w')"
  proof (cases "w' = w\<lparr>heap := h1\<rparr>")
    case True
    with wf show ?thesis by (simp add: extends_heap_refl)
  next
    case False
    with nb w' have "w' = save_state P ctx (w\<lparr>heap := h1\<rparr>) t'"
      by (auto split: if_splits)
    then obtain x where "transform_write (transform ctx) h1 t' = (heap w', x)"
      using save_state_cases [OF refl, of P ctx "w\<lparr>heap := h1\<rparr>" t'] by auto
    with pw wf v show ?thesis
      unfolding pure_write_def by blast
  qed
  with w' show ?thesis by blast
qed

text \<open>One step of the two runs, from the same passable state: both throw, or both return
  the same state.\<close>

lemma normal_step_same:
  assumes pc: "pure_child (reduxable ctx) h0 A" and pw: "pure_write (transform ctx)"
    and a: "a \<in> A"
    and lc: "later_state h0 g s" and lw: "later_state h0 (heap w) t"
    and same: "same_state g s (heap w) t" and pass: "passable g s"
  shows "(\<exists>g' e w' e'. reducer (reduxable ctx) g s a = (g', Inl e)
             \<and> wrapper_reducer P ctx w t a = (w', Inl e'))
       \<or> (\<exists>g' s' w' t'. reducer (reduxable ctx) g s a = (g', Inr s')
             \<and> wrapper_reducer P ctx w t a = (w', Inr t')
             \<and> later_state h0 g' s' \<and> later_state h0 (heap w') t'
             \<and> same_state g' s' (heap w') t')"
proof -
  from pass passable_same [OF same] have "passable (heap w) t" by simp
  then obtain m where m: "get_prop (heap w) t (SymKey defaultStateSourceMarker) = Inr m"
    and nt: "\<not> truthy m"
    by (auto simp: passable_def split: sum.splits)
  from m have "t \<noteq> JUndefined"
    by (auto simp: get_prop_def)
  then have pub: "wrapper_reducer P ctx w t a = internalReducer P ctx w t a"
    by (simp add: wrapper_reducer_def)
  obtain g' x where c: "reducer (reduxable ctx) g s a = (g', x)"
    by (cases "reducer (reduxable ctx) g s a")
  obtain h1 y where d: "reducer (reduxable ctx) (heap w) t a = (h1, y)"
    by (cases "reducer (reduxable ctx) (heap w) t a")
  from pc a lc lw same have ag: "agree h0 (g', x) (h1, y)"
    unfolding pure_child_def c [symmetric] d [symmetric] by blast
  show ?thesis
  proof (cases x)
    case (Inl e)
    with ag obtain e' where y: "y = Inl e'"
      by (cases y) (auto simp: agree_def)
    from m nt d y have "internalReducer P ctx w t a = (w\<lparr>heap := h1\<rparr>, Inl e')"
      by (simp add: internalReducer_def)
    with c Inl pub show ?thesis by simp
  next
    case (Inr s')
    with ag obtain t' where y: "y = Inr t'"
      by (cases y) (auto simp: agree_def)
    from ag Inr y have lg: "later_state h0 g' s'" and l1: "later_state h0 h1 t'"
      and s1: "same_state g' s' h1 t'"
      by (simp_all add: agree_def)
    from l1 have wf1: "wf_heap h1" and v1: "valid h1 t'"
      by (simp_all add: later_state_def)
    from d y have d': "reducer (reduxable ctx) (heap w) t a = (h1, Inr t')" by simp
    from normal_step_heap [OF pw m nt d' wf1 v1, of P]
    obtain w' where w': "internalReducer P ctx w t a = (w', Inr t')"
      and e: "extends_heap h1 (heap w')" and wf': "wf_heap (heap w')"
      by blast
    have "later_state h0 (heap w') t'"
      using l1 e wf' by (rule later_state_grow(1))
    moreover have "same_state g' s' (heap w') t'"
      using s1 same_state_sym [OF later_state_grow(2) [OF l1 e wf']] by (rule same_state_trans)
    ultimately show ?thesis
      using c Inr w' pub lg by simp
  qed
qed

lemma run_same:
  assumes pc: "pure_child (reduxable ctx) h0 A" and pw: "pure_write (transform ctx)"
  shows "set acts \<subseteq> A \<Longrightarrow> later_state h0 g s \<Longrightarrow> later_state h0 (heap w) t
     \<Longrightarrow> same_state g s (heap w) t
     \<Longrightarrow> acts \<noteq> [] \<longrightarrow> passable g s
     \<Longrightarrow> list_all (\<lambda>(g, s). passable g s) (passed_on acts (run_child (reduxable ctx) g s acts))
     \<Longrightarrow> same_states (run_child (reduxable ctx) g s acts) (run_wrapper P ctx w t acts)"
proof (induction acts arbitrary: g s w t)
  case Nil
  then show ?case by (simp add: same_states_def)
next
  case (Cons a acts)
  from Cons.prems(1) have a: "a \<in> A" and rest: "set acts \<subseteq> A" by auto
  from Cons.prems(5) have pass: "passable g s" by simp
  from normal_step_same [OF pc pw a Cons.prems(2,3,4) pass, of P]
  show ?case
  proof (elim disjE exE conjE)
    fix g' e w' e'
    assume "reducer (reduxable ctx) g s a = (g', Inl e)"
      and "wrapper_reducer P ctx w t a = (w', Inl e')"
    then show ?thesis by (simp add: same_states_def)
  next
    fix g' s' w' t'
    assume c: "reducer (reduxable ctx) g s a = (g', Inr s')"
      and d: "wrapper_reducer P ctx w t a = (w', Inr t')"
      and lg: "later_state h0 g' s'" and lw: "later_state h0 (heap w') t'"
      and ss: "same_state g' s' (heap w') t'"
    have p1: "acts \<noteq> [] \<longrightarrow> passable g' s'"
      using Cons.prems(6) c by (cases acts) (simp_all add: passed_on_def)
    have p2: "list_all (\<lambda>(g, s). passable g s)
                (passed_on acts (run_child (reduxable ctx) g' s' acts))"
      using Cons.prems(6) c by (cases acts) (simp_all add: passed_on_def)
    from Cons.IH [OF rest lg lw ss p1 p2] c d ss show ?thesis
      by (simp add: same_states_def)
  qed
qed

text \<open>The state the wrapper sets the child up with, when nothing is stored, is the same
  state as the child's default state.\<close>

lemma init_copy_same:
  assumes l: "later_state h0 h1 (JRef a)" and nm: "\<not> has_marker h1 (JRef a)"
  defines "marked \<equiv> AList.update (SymKey defaultStateSourceMarker) (JBool True) (spread h1 (JRef a))"
  defines "hm \<equiv> h1 @ [marked]"
  defines "hi \<equiv> hm @ [AList.delete (SymKey defaultStateSourceMarker) (spread hm (JRef (length h1)))]"
  shows "later_state h0 hi (JRef (length hm)) \<and> same_state h1 (JRef a) hi (JRef (length hm))"
proof -
  from l have e: "extends_heap h0 h1" and wf: "wf_heap h1" and al: "a < length h1"
    by (simp_all add: later_state_def valid_def)
  have v: "\<forall>(k, x) \<in> set (obj_at h1 a). valid h1 x"
    using wf_obj_at [OF wf] by auto
  from nm have none: "map_of (obj_at h1 a) (SymKey defaultStateSourceMarker) = None"
    by (simp add: has_marker_def)
  have m: "marked = AList.update (SymKey defaultStateSourceMarker) (JBool True) (obj_at h1 a)"
    by (simp add: marked_def spread_def)
  have sp: "spread hm (JRef (length h1)) = marked"
    by (simp add: spread_def hm_def obj_at_def)
  have "SymKey defaultStateSourceMarker \<notin> fst ` set (obj_at h1 a)"
    using none by (simp add: map_of_eq_None_iff)
  then have del: "AList.delete (SymKey defaultStateSourceMarker) marked = obj_at h1 a"
    by (simp add: m delete_update_same)
  have hi: "hi = hm @ [obj_at h1 a]"
    by (simp add: hi_def sp del)
  have vm: "\<forall>(k, x) \<in> set marked. valid h1 x"
    using v set_update_subset [of "SymKey defaultStateSourceMarker" "JBool True" "obj_at h1 a"]
    by (auto simp: m valid_def)
  have wfm: "wf_heap hm"
    unfolding hm_def using wf vm by (rule wf_heap_alloc)
  have em: "extends_heap h0 hm"
    unfolding hm_def using e extends_heap_append by (rule extends_heap_trans)
  have vhm: "\<forall>(k, x) \<in> set (obj_at h1 a). valid hm x"
    using v by (auto simp: hm_def intro: valid_append)
  have o: "later_state h0 hi (JRef (length hm))"
    unfolding hi using em wfm vhm by (rule later_state_alloc)
  have so: "same_obj h1 (obj_at h1 a) hi (obj_at h1 a)"
  proof -
    have "same_state h1 x hi x" if "(k, x) \<in> set (obj_at h1 a)" for k x
    proof -
      from v that have "valid h1 x" by auto
      with wf have "same_state (h1 @ [marked, obj_at h1 a]) x h1 x"
        by (rule same_state_append)
      then show ?thesis
        by (simp add: hi hm_def same_state_sym)
    qed
    then show ?thesis
      by (simp add: same_obj_def list_all2_same case_prod_unfold) (metis prod.collapse)
  qed
  have "obj_at hi (length hm) = obj_at h1 a"
    by (simp add: hi obj_at_def)
  with so have "same_state h1 (JRef a) hi (JRef (length hm))"
    by (simp add: same_state_ref)
  with o show ?thesis by simp
qed

text \<open>
  C1, as amended. Let the heap be well formed and nothing be stored under the wrapper's
  key. Let the child's default state be a plain object without the marker, let the child
  be pure on the actions of the run (what its reducer does depends on the content of the
  state only; it may throw, and its states may be of any kind), and let the transform's
  \<^verbatim>\<open>write\<close> leave the objects it is given as they are. Let every state the child alone
  returns and is given again be one the wrapper passes on as it is: not \<^verbatim>\<open>undefined\<close>, not
  \<^verbatim>\<open>null\<close> and without a truthy marker. Then the run of the public reducer of the wrapper
  from its default state and the run of the child alone from the child's default state,
  through the same actions, return the same states one by one (deep equality, each state
  seen in the heap it was returned in, after the write), and they have the same length:
  the wrapper throws where the child throws and nowhere else. In the normal branch the
  state returned is the very value the child returned, and it is the same state after the
  write as before it.
\<close>

theorem passthrough_equivalence:
  assumes wf: "wf_heap (heap w)"
    and empty: "getItem w (target ctx) = None"
    and pd: "plain_default (reduxable ctx) (heap w)"
    and pc: "pure_child (reduxable ctx) (heap w) (set acts)"
    and pw: "pure_write (transform ctx)"
    and pass: "list_all (\<lambda>(g, s). passable g s)
                 (passed_on acts (child_states (reduxable ctx) (heap w) acts))"
  shows "same_states (child_states (reduxable ctx) (heap w) acts) (wrapper_states P ctx w acts)
       \<and> length (wrapper_states P ctx w acts) = length (child_states (reduxable ctx) (heap w) acts)
       \<and> (\<forall>v t a h1 t'. passable (heap v) t
             \<and> reducer (reduxable ctx) (heap v) t a = (h1, Inr t') \<and> wf_heap h1 \<and> valid h1 t'
             \<longrightarrow> (\<exists>v'. wrapper_reducer P ctx v t a = (v', Inr t')
                        \<and> same_state (heap v') t' h1 t'))"
proof (intro conjI allI impI)
  show runs: "same_states (child_states (reduxable ctx) (heap w) acts) (wrapper_states P ctx w acts)"
  proof (cases acts)
    case Nil
    then show ?thesis
      by (simp add: same_states_def child_states_def wrapper_states_def split: prod.splits)
  next
    case (Cons a rest)
    with pc have pc1: "pure_child (reduxable ctx) (heap w) (set (a # rest))" by simp
    have a: "a \<in> set (a # rest)" and rest: "set rest \<subseteq> set (a # rest)" by auto
    obtain h1 d where cd: "childDefault (reduxable ctx) (heap w) = (h1, d)"
      by (cases "childDefault (reduxable ctx) (heap w)")
    with pd obtain b where d: "d = JRef b" and ld: "later_state (heap w) h1 (JRef b)"
      and nm: "\<not> has_marker h1 (JRef b)"
      by (auto simp: plain_default_def split: jsval.splits)
    define marked where "marked = AList.update (SymKey defaultStateSourceMarker) (JBool True) (spread h1 (JRef b))"
    define hm where "hm = h1 @ [marked]"
    define hi where "hi = hm @ [AList.delete (SymKey defaultStateSourceMarker) (spread hm (JRef (length h1)))]"
    have ds: "defaultState ctx (heap w) = (hm, JRef (length h1))"
      by (simp add: defaultState_def cd d alloc_def hm_def marked_def)
    from init_copy_same [OF ld nm]
    have li: "later_state (heap w) hi (JRef (length hm))"
      and si: "same_state h1 (JRef b) hi (JRef (length hm))"
      by (simp_all add: hi_def hm_def marked_def)
    have m: "get_prop hm (JRef (length h1)) (SymKey defaultStateSourceMarker) = Inr (JBool True)"
      by (simp add: get_prop_def hm_def obj_at_def marked_def update_conv')
    have ini: "initial_state P ctx (w\<lparr>heap := hm\<rparr>) (JRef (length h1)) = (w\<lparr>heap := hi\<rparr>, JRef (length hm))"
      using empty
      by (simp add: initial_state_def load_stored_def getItem_def alloc_def delete_prop_def hi_def
                    spread_def obj_at_def hm_def nth_append list_update_append)
    obtain g x where c: "reducer (reduxable ctx) h1 (JRef b) a = (g, x)"
      by (cases "reducer (reduxable ctx) h1 (JRef b) a")
    obtain g' y where c': "reducer (reduxable ctx) hi (JRef (length hm)) a = (g', y)"
      by (cases "reducer (reduxable ctx) hi (JRef (length hm)) a")
    from pc1 a ld li si have ag: "agree (heap w) (g, x) (g', y)"
      unfolding pure_child_def c [symmetric] c' [symmetric] by blast
    have first: "wrapper_reducer P ctx (w\<lparr>heap := hm\<rparr>) (JRef (length h1)) a = (w\<lparr>heap := g'\<rparr>, y)"
      by (simp add: wrapper_reducer_def internalReducer_def m ini c')
    show ?thesis
    proof (cases x)
      case (Inl e)
      with ag obtain e' where "y = Inl e'"
        by (cases y) (auto simp: agree_def)
      with Inl Cons cd d ds c first show ?thesis
        by (simp add: child_states_def wrapper_states_def same_states_def)
    next
      case (Inr s)
      with ag obtain s' where y: "y = Inr s'"
        by (cases y) (auto simp: agree_def)
      from ag Inr y have lg: "later_state (heap w) g s" and lg': "later_state (heap w) g' s'"
        and ss: "same_state g s g' s'"
        by (simp_all add: agree_def)
      from lg' have l2: "later_state (heap w) (heap (w\<lparr>heap := g'\<rparr>)) s'" by simp
      from ss have ss2: "same_state g s (heap (w\<lparr>heap := g'\<rparr>)) s'" by simp
      have cs: "child_states (reduxable ctx) (heap w) (a # rest)
                  = (g, s) # run_child (reduxable ctx) g s rest"
        by (simp add: child_states_def cd d c Inr)
      from pass have pass': "list_all (\<lambda>(g, s). passable g s)
                 (passed_on (a # rest) ((g, s) # run_child (reduxable ctx) g s rest))"
        by (simp add: Cons cs)
      have p1: "rest \<noteq> [] \<longrightarrow> passable g s"
        using pass' by (cases rest) (simp_all add: passed_on_def)
      have p2: "list_all (\<lambda>(g, s). passable g s)
                  (passed_on rest (run_child (reduxable ctx) g s rest))"
        using pass' by (cases rest) (simp_all add: passed_on_def)
      from run_same [OF pc1 pw rest lg l2 ss2 p1 p2, of P] ds first y ss
      show ?thesis
        by (simp add: Cons cs wrapper_states_def same_states_def)
    qed
  qed
  then show "length (wrapper_states P ctx w acts) = length (child_states (reduxable ctx) (heap w) acts)"
    by (auto simp: same_states_def dest: list_all2_lengthD)
next
  fix v :: world and t a h1 t'
  assume h: "passable (heap v) t
             \<and> reducer (reduxable ctx) (heap v) t a = (h1, Inr t') \<and> wf_heap h1 \<and> valid h1 t'"
  then obtain m where m: "get_prop (heap v) t (SymKey defaultStateSourceMarker) = Inr m"
    and nt: "\<not> truthy m"
    by (auto simp: passable_def split: sum.splits)
  from m have "t \<noteq> JUndefined"
    by (auto simp: get_prop_def)
  then have pub: "wrapper_reducer P ctx v t a = internalReducer P ctx v t a"
    by (simp add: wrapper_reducer_def)
  from h have r: "reducer (reduxable ctx) (heap v) t a = (h1, Inr t')"
    and wf1: "wf_heap h1" and v1: "valid h1 t'"
    by simp_all
  from normal_step_heap [OF pw m nt r wf1 v1, of P]
  obtain v' where v': "internalReducer P ctx v t a = (v', Inr t')"
    and e: "extends_heap h1 (heap v')"
    by blast
  from wf1 v1 e have "same_state (heap v') t' h1 t'"
    by (rule same_state_extends)
  with v' pub show "\<exists>v'. wrapper_reducer P ctx v t a = (v', Inr t')
                        \<and> same_state (heap v') t' h1 t'"
    by simp
qed

lemma same_states_snapshot:
  assumes "same_states cs ws"
  shows "map (\<lambda>(g, s). snapshot n g s) cs = map (\<lambda>(w, t). snapshot n (heap w) t) ws"
  using assms unfolding same_states_def
  by (induction rule: list_all2_induct) (auto simp: same_state_def)

text \<open>
  As stated, for every child and every sequence of actions, the claim fails, and each
  condition of the amended claim is there for a run that fails without it. Nothing is
  stored under the wrapper's key when these runs start.

  \<^enum> The default state is a primitive. The wrapper marks the default state by spreading it
    into a new object, so the child \<open>Value\<close> (default state 0) is set up with an object:
    alone it returns 0 on an initialization action, wrapped it returns the empty object at
    address 1.
  \<^enum> A state is \<^verbatim>\<open>null\<close>. The child \<open>Holder\<close> alone goes on from the state \<^verbatim>\<open>null\<close>; the
    wrapper reads the marker of its input state and throws a TypeError, so its run ends.
  \<^enum> A state carries a truthy marker (the caller has sent the value of the wrapper's
    \<^verbatim>\<open>defaultState\<close>, at address 1, as data). The child alone keeps that state; the wrapper
    initializes again and returns a copy without the marker (address 5).
  \<^enum> A state is \<^verbatim>\<open>undefined\<close>. The child alone starts again from its default state (the
    empty object at address 1); the public reducer of the wrapper takes the marked default
    state, and the initialization loads what was stored two actions before: 6.
  \<^enum> The transform's \<^verbatim>\<open>write\<close> changes the state it is given: the state the wrapper \<open>rlsb\<close>
    returns for the action \<^verbatim>\<open>TEST\<close> has lost its data by the time the caller sees it.
  \<^enum> The child's default state has the marker property (set to \<^verbatim>\<open>false\<close>): the wrapper's
    copy has lost it.
\<close>

theorem passthrough_equivalence_counterexample:
  "(getItem empty_world (target rlsv) = None
    \<and> \<not> plain_default (reduxable rlsv) (heap empty_world)
    \<and> map snd (child_states (reduxable rlsv) (heap empty_world) [INIT]) = [JNum 0]
    \<and> map snd (wrapper_states reference_platform rlsv empty_world [INIT]) = [JRef 1]
    \<and> obj_at (heap (fst (hd (wrapper_states reference_platform rlsv empty_world [INIT])))) 1 = []
    \<and> \<not> same_states (child_states (reduxable rlsv) (heap empty_world) [INIT])
                      (wrapper_states reference_platform rlsv empty_world [INIT]))
   \<and> (getItem empty_world (target rlsh) = None
    \<and> plain_default (reduxable rlsh) (heap empty_world)
    \<and> map snd (child_states (reduxable rlsh) (heap empty_world) [SET JNull, INIT])
         = [JNull, JNull]
    \<and> map snd (wrapper_states reference_platform rlsh empty_world [SET JNull, INIT]) = [JNull]
    \<and> \<not> same_states (child_states (reduxable rlsh) (heap empty_world) [SET JNull, INIT])
                      (wrapper_states reference_platform rlsh empty_world [SET JNull, INIT]))
   \<and> (getItem (started rlsh empty_world) (target rlsh) = None
    \<and> plain_default (reduxable rlsh) (heap (started rlsh empty_world))
    \<and> marked_state rlsh empty_world = JRef 1
    \<and> map snd (child_states (reduxable rlsh) (heap (started rlsh empty_world))
                  [SET (JRef 1), INIT]) = [JRef 1, JRef 1]
    \<and> map snd (wrapper_states reference_platform rlsh (started rlsh empty_world)
                  [SET (JRef 1), INIT]) = [JRef 1, JRef 5]
    \<and> \<not> same_states (child_states (reduxable rlsh) (heap (started rlsh empty_world))
                         [SET (JRef 1), INIT])
                      (wrapper_states reference_platform rlsh (started rlsh empty_world)
                         [SET (JRef 1), INIT]))
   \<and> (getItem empty_world (target rlsht) = None
    \<and> plain_default (reduxable rlsht) (heap empty_world)
    \<and> map snd (child_states (reduxable rlsht) (heap empty_world)
                  [SET (JNum 5), SET (JNum 6), CLEAR, INIT])
         = [JNum 5, JNum 6, JUndefined, JRef 1]
    \<and> map snd (wrapper_states reference_platform rlsht empty_world
                  [SET (JNum 5), SET (JNum 6), CLEAR, INIT])
         = [JNum 5, JNum 6, JUndefined, JNum 6]
    \<and> \<not> same_states (child_states (reduxable rlsht) (heap empty_world)
                         [SET (JNum 5), SET (JNum 6), CLEAR, INIT])
                      (wrapper_states reference_platform rlsht empty_world
                         [SET (JNum 5), SET (JNum 6), CLEAR, INIT]))
   \<and> (getItem empty_world (target rlsb) = None
    \<and> plain_default (reduxable rlsb) (heap empty_world)
    \<and> map (\<lambda>(g, s). get_prop g s (StrKey ''data''))
         (child_states (reduxable rlsb) (heap empty_world) [INIT, TEST (JStr ''x'')])
         = [Inr (JStr ''''), Inr (JStr ''x'')]
    \<and> map (\<lambda>(w', s). get_prop (heap w') s (StrKey ''data''))
         (wrapper_states reference_platform rlsb empty_world [INIT, TEST (JStr ''x'')])
         = [Inr (JStr ''''), Inr (JStr '''')]
    \<and> \<not> same_states (child_states (reduxable rlsb) (heap empty_world) [INIT, TEST (JStr ''x'')])
                      (wrapper_states reference_platform rlsb empty_world
                         [INIT, TEST (JStr ''x'')]))
   \<and> (getItem empty_world (target rlshm) = None
    \<and> \<not> plain_default (reduxable rlshm) (heap empty_world)
    \<and> map (\<lambda>(g, s). has_marker g s) (child_states (reduxable rlshm) (heap empty_world) [INIT])
         = [True]
    \<and> map (\<lambda>(w', s). has_marker (heap w') s)
         (wrapper_states reference_platform rlshm empty_world [INIT]) = [False]
    \<and> \<not> same_states (child_states (reduxable rlshm) (heap empty_world) [INIT])
                      (wrapper_states reference_platform rlshm empty_world [INIT]))"
proof -
  have differ: "\<not> same_states cs ws"
    if "map (\<lambda>(g, s). snapshot 1 g s) cs \<noteq> map (\<lambda>(w, t). snapshot 1 (heap w) t) ws" for cs ws
    using that same_states_snapshot [of cs ws 1] by blast
  have p1: "getItem empty_world (target rlsv) = None
    \<and> \<not> plain_default (reduxable rlsv) (heap empty_world)
    \<and> map snd (child_states (reduxable rlsv) (heap empty_world) [INIT]) = [JNum 0]
    \<and> map snd (wrapper_states reference_platform rlsv empty_world [INIT]) = [JRef 1]
    \<and> obj_at (heap (fst (hd (wrapper_states reference_platform rlsv empty_world [INIT])))) 1 = []"
    by code_simp
  have d1: "\<not> same_states (child_states (reduxable rlsv) (heap empty_world) [INIT])
                      (wrapper_states reference_platform rlsv empty_world [INIT])"
    by (rule differ) code_simp
  have p2: "getItem empty_world (target rlsh) = None
    \<and> plain_default (reduxable rlsh) (heap empty_world)
    \<and> map snd (child_states (reduxable rlsh) (heap empty_world) [SET JNull, INIT])
         = [JNull, JNull]
    \<and> map snd (wrapper_states reference_platform rlsh empty_world [SET JNull, INIT]) = [JNull]"
    by code_simp
  have d2: "\<not> same_states (child_states (reduxable rlsh) (heap empty_world) [SET JNull, INIT])
                      (wrapper_states reference_platform rlsh empty_world [SET JNull, INIT])"
    by (rule differ) code_simp
  have p3: "getItem (started rlsh empty_world) (target rlsh) = None
    \<and> plain_default (reduxable rlsh) (heap (started rlsh empty_world))
    \<and> marked_state rlsh empty_world = JRef 1
    \<and> map snd (child_states (reduxable rlsh) (heap (started rlsh empty_world))
                  [SET (JRef 1), INIT]) = [JRef 1, JRef 1]
    \<and> map snd (wrapper_states reference_platform rlsh (started rlsh empty_world)
                  [SET (JRef 1), INIT]) = [JRef 1, JRef 5]"
    by code_simp
  have d3: "\<not> same_states (child_states (reduxable rlsh) (heap (started rlsh empty_world))
                         [SET (JRef 1), INIT])
                      (wrapper_states reference_platform rlsh (started rlsh empty_world)
                         [SET (JRef 1), INIT])"
    by (rule differ) code_simp
  have p4: "getItem empty_world (target rlsht) = None
    \<and> plain_default (reduxable rlsht) (heap empty_world)
    \<and> map snd (child_states (reduxable rlsht) (heap empty_world)
                  [SET (JNum 5), SET (JNum 6), CLEAR, INIT])
         = [JNum 5, JNum 6, JUndefined, JRef 1]
    \<and> map snd (wrapper_states reference_platform rlsht empty_world
                  [SET (JNum 5), SET (JNum 6), CLEAR, INIT])
         = [JNum 5, JNum 6, JUndefined, JNum 6]"
    by code_simp
  have d4: "\<not> same_states (child_states (reduxable rlsht) (heap empty_world)
                         [SET (JNum 5), SET (JNum 6), CLEAR, INIT])
                      (wrapper_states reference_platform rlsht empty_world
                         [SET (JNum 5), SET (JNum 6), CLEAR, INIT])"
    by (rule differ) code_simp
  have p5: "getItem empty_world (target rlsb) = None
    \<and> plain_default (reduxable rlsb) (heap empty_world)
    \<and> map (\<lambda>(g, s). get_prop g s (StrKey ''data''))
         (child_states (reduxable rlsb) (heap empty_world) [INIT, TEST (JStr ''x'')])
         = [Inr (JStr ''''), Inr (JStr ''x'')]
    \<and> map (\<lambda>(w', s). get_prop (heap w') s (StrKey ''data''))
         (wrapper_states reference_platform rlsb empty_world [INIT, TEST (JStr ''x'')])
         = [Inr (JStr ''''), Inr (JStr '''')]"
    by code_simp
  have d5: "\<not> same_states (child_states (reduxable rlsb) (heap empty_world) [INIT, TEST (JStr ''x'')])
                      (wrapper_states reference_platform rlsb empty_world
                         [INIT, TEST (JStr ''x'')])"
    by (rule differ) code_simp
  have p6: "getItem empty_world (target rlshm) = None
    \<and> \<not> plain_default (reduxable rlshm) (heap empty_world)
    \<and> map (\<lambda>(g, s). has_marker g s) (child_states (reduxable rlshm) (heap empty_world) [INIT])
         = [True]
    \<and> map (\<lambda>(w', s). has_marker (heap w') s)
         (wrapper_states reference_platform rlshm empty_world [INIT]) = [False]"
    by code_simp
  have d6: "\<not> same_states (child_states (reduxable rlshm) (heap empty_world) [INIT])
                      (wrapper_states reference_platform rlshm empty_world [INIT])"
    by (rule differ) code_simp
  from p1 d1 p2 d2 p3 d3 p4 d4 p5 d5 p6 d6 show ?thesis
    by blast
qed

text \<open>
  The wrapper \<open>rlsst\<close> of the test suite and its child \<open>Test\<close>, in the world that holds the
  circular object of the suite, through an initialization action, the action \<^verbatim>\<open>TEST\<close> with
  the circular object as data (which cannot be marshalled), the action \<^verbatim>\<open>TEST\<close> without
  data, and another initialization action: the addresses differ (the wrapper made two more
  objects), the states are the same. And the wrapper \<open>rlsh\<close>, whose child holds a number and
  then a string: the two runs return the same primitives.
\<close>

theorem passthrough_equivalence_witness:
  "(wf_heap (heap circular_world)
    \<and> getItem circular_world (target rlsst) = None
    \<and> plain_default (reduxable rlsst) (heap circular_world)
    \<and> pure_child (reduxable rlsst) (heap circular_world)
         (set [INIT, TEST (JRef 2), TEST JUndefined, INIT])
    \<and> pure_write (transform rlsst)
    \<and> list_all (\<lambda>(g, s). passable g s)
         (passed_on [INIT, TEST (JRef 2), TEST JUndefined, INIT]
            (child_states (reduxable rlsst) (heap circular_world)
               [INIT, TEST (JRef 2), TEST JUndefined, INIT]))
    \<and> map snd (child_states (reduxable rlsst) (heap circular_world)
                  [INIT, TEST (JRef 2), TEST JUndefined, INIT]) = [JRef 5, JRef 6, JRef 7, JRef 7]
    \<and> map snd (wrapper_states reference_platform rlsst circular_world
                  [INIT, TEST (JRef 2), TEST JUndefined, INIT]) = [JRef 7, JRef 8, JRef 9, JRef 9]
    \<and> map (\<lambda>(w', s). console w') (wrapper_states reference_platform rlsst circular_world
                  [INIT, TEST (JRef 2)]) = [[], [(marshal_message, TypeError)]]
    \<and> same_states (child_states (reduxable rlsst) (heap circular_world)
                      [INIT, TEST (JRef 2), TEST JUndefined, INIT])
                   (wrapper_states reference_platform rlsst circular_world
                      [INIT, TEST (JRef 2), TEST JUndefined, INIT]))
   \<and> (wf_heap (heap empty_world)
    \<and> getItem empty_world (target rlsh) = None
    \<and> plain_default (reduxable rlsh) (heap empty_world)
    \<and> pure_child (reduxable rlsh) (heap empty_world)
         (set [SET (JNum 5), INIT, SET (JStr ''x''), INIT])
    \<and> pure_write (transform rlsh)
    \<and> list_all (\<lambda>(g, s). passable g s)
         (passed_on [SET (JNum 5), INIT, SET (JStr ''x''), INIT]
            (child_states (reduxable rlsh) (heap empty_world)
               [SET (JNum 5), INIT, SET (JStr ''x''), INIT]))
    \<and> map snd (child_states (reduxable rlsh) (heap empty_world)
                  [SET (JNum 5), INIT, SET (JStr ''x''), INIT])
         = [JNum 5, JNum 5, JStr ''x'', JStr ''x'']
    \<and> map snd (wrapper_states reference_platform rlsh empty_world
                  [SET (JNum 5), INIT, SET (JStr ''x''), INIT])
         = [JNum 5, JNum 5, JStr ''x'', JStr ''x'']
    \<and> same_states (child_states (reduxable rlsh) (heap empty_world)
                      [SET (JNum 5), INIT, SET (JStr ''x''), INIT])
                   (wrapper_states reference_platform rlsh empty_world
                      [SET (JNum 5), INIT, SET (JStr ''x''), INIT]))"
proof -
  have r: "reduxable rlsst = Test" and t: "transform rlsst = identity_transform"
    by (simp_all add: rlsst_def new_ReduxLocalStorage_def)
  have wf: "wf_heap (heap circular_world)"
    by code_simp
  have g: "getItem circular_world (target rlsst) = None"
    by code_simp
  have pd: "plain_default (reduxable rlsst) (heap circular_world)"
    by code_simp
  have "set [INIT, TEST (JRef 2), TEST JUndefined, INIT]
          \<subseteq> {a. valid (heap circular_world) (payload a)}"
    by (simp add: INIT_def TEST_def valid_def circular_world_def empty_world_def)
  with Test_pure_child [OF wf]
  have pc: "pure_child (reduxable rlsst) (heap circular_world)
              (set [INIT, TEST (JRef 2), TEST JUndefined, INIT])"
    unfolding r by (rule pure_child_mono)
  have pw: "pure_write (transform rlsst)"
    unfolding t by (rule identity_pure_write)
  have ps: "list_all (\<lambda>(g, s). passable g s)
        (passed_on [INIT, TEST (JRef 2), TEST JUndefined, INIT]
           (child_states (reduxable rlsst) (heap circular_world)
              [INIT, TEST (JRef 2), TEST JUndefined, INIT]))"
    by code_simp
  have c: "map snd (child_states (reduxable rlsst) (heap circular_world)
                 [INIT, TEST (JRef 2), TEST JUndefined, INIT]) = [JRef 5, JRef 6, JRef 7, JRef 7]"
    by code_simp
  have w: "map snd (wrapper_states reference_platform rlsst circular_world
                 [INIT, TEST (JRef 2), TEST JUndefined, INIT]) = [JRef 7, JRef 8, JRef 9, JRef 9]"
    by code_simp
  have m: "map (\<lambda>(w', s). console w') (wrapper_states reference_platform rlsst circular_world
                 [INIT, TEST (JRef 2)]) = [[], [(marshal_message, TypeError)]]"
    by code_simp
  from passthrough_equivalence [OF wf g pd pc pw ps, of reference_platform]
  have "same_states (child_states (reduxable rlsst) (heap circular_world)
                     [INIT, TEST (JRef 2), TEST JUndefined, INIT])
                  (wrapper_states reference_platform rlsst circular_world
                     [INIT, TEST (JRef 2), TEST JUndefined, INIT])"
    by blast
  with wf g pd pc pw ps c w m
  have first: "wf_heap (heap circular_world)
    \<and> getItem circular_world (target rlsst) = None
    \<and> plain_default (reduxable rlsst) (heap circular_world)
    \<and> pure_child (reduxable rlsst) (heap circular_world)
         (set [INIT, TEST (JRef 2), TEST JUndefined, INIT])
    \<and> pure_write (transform rlsst)
    \<and> list_all (\<lambda>(g, s). passable g s)
         (passed_on [INIT, TEST (JRef 2), TEST JUndefined, INIT]
            (child_states (reduxable rlsst) (heap circular_world)
               [INIT, TEST (JRef 2), TEST JUndefined, INIT]))
    \<and> map snd (child_states (reduxable rlsst) (heap circular_world)
                  [INIT, TEST (JRef 2), TEST JUndefined, INIT]) = [JRef 5, JRef 6, JRef 7, JRef 7]
    \<and> map snd (wrapper_states reference_platform rlsst circular_world
                  [INIT, TEST (JRef 2), TEST JUndefined, INIT]) = [JRef 7, JRef 8, JRef 9, JRef 9]
    \<and> map (\<lambda>(w', s). console w') (wrapper_states reference_platform rlsst circular_world
                  [INIT, TEST (JRef 2)]) = [[], [(marshal_message, TypeError)]]
    \<and> same_states (child_states (reduxable rlsst) (heap circular_world)
                      [INIT, TEST (JRef 2), TEST JUndefined, INIT])
                   (wrapper_states reference_platform rlsst circular_world
                      [INIT, TEST (JRef 2), TEST JUndefined, INIT])"
    by blast
  have rh: "reduxable rlsh = Holder []" and th: "transform rlsh = identity_transform"
    by (simp_all add: rlsh_def new_ReduxLocalStorage_def)
  have wfh: "wf_heap (heap empty_world)"
    by code_simp
  have gh: "getItem empty_world (target rlsh) = None"
    by code_simp
  have pdh: "plain_default (reduxable rlsh) (heap empty_world)"
    by code_simp
  have sub: "set [SET (JNum 5), INIT, SET (JStr ''x''), INIT]
          \<subseteq> {a. valid (heap empty_world) (payload a)}"
    by (simp add: INIT_def SET_def valid_def)
  have "pure_child (Holder []) (heap empty_world) {a. valid (heap empty_world) (payload a)}"
    using wfh by (rule Holder_pure_child) simp
  then have pch: "pure_child (reduxable rlsh) (heap empty_world)
              (set [SET (JNum 5), INIT, SET (JStr ''x''), INIT])"
    unfolding rh using sub by (rule pure_child_mono)
  have pwh: "pure_write (transform rlsh)"
    unfolding th by (rule identity_pure_write)
  have psh: "list_all (\<lambda>(g, s). passable g s)
        (passed_on [SET (JNum 5), INIT, SET (JStr ''x''), INIT]
           (child_states (reduxable rlsh) (heap empty_world)
              [SET (JNum 5), INIT, SET (JStr ''x''), INIT]))"
    by code_simp
  have ch: "map snd (child_states (reduxable rlsh) (heap empty_world)
                  [SET (JNum 5), INIT, SET (JStr ''x''), INIT])
         = [JNum 5, JNum 5, JStr ''x'', JStr ''x'']"
    by code_simp
  have wh: "map snd (wrapper_states reference_platform rlsh empty_world
                  [SET (JNum 5), INIT, SET (JStr ''x''), INIT])
         = [JNum 5, JNum 5, JStr ''x'', JStr ''x'']"
    by code_simp
  from passthrough_equivalence [OF wfh gh pdh pch pwh psh, of reference_platform]
  have "same_states (child_states (reduxable rlsh) (heap empty_world)
                      [SET (JNum 5), INIT, SET (JStr ''x''), INIT])
                   (wrapper_states reference_platform rlsh empty_world
                      [SET (JNum 5), INIT, SET (JStr ''x''), INIT])"
    by blast
  with wfh gh pdh pch pwh psh ch wh first show ?thesis
    by blast
qed

section \<open>The reference JSON reads what it writes\<close>




















section \<open>Round trip\<close>




end
